theory Spec2Isabelle
  imports Complex_Main "HOL-Library.Monad_Syntax"
begin

section \<open>Data model\<close>

text \<open>
  The source works on \<^verbatim>\<open>glm::vec4\<close> and \<^verbatim>\<open>glm::mat4\<close> values with \<^verbatim>\<open>float\<close>
  components. The type of a component is a parameter \<open>'a\<close> of the model. The model uses its
  linear order for the comparisons, \<^verbatim>\<open>std::min\<close> and \<^verbatim>\<open>std::max\<close>, and its operations
  \<open>+\<close>, \<open>-\<close>, \<open>*\<close>, \<open>/\<close>, \<open>abs\<close> and \<open>1\<close> for the arithmetic of the source; no law of
  arithmetic is assumed of them, so a sum, a difference or a quotient is whatever the
  component type computes, rounded or overflowed to an infinity as for \<^verbatim>\<open>float\<close>. A type
  with a linear order has no NaN: the model covers the runs of the source in which no NaN
  occurs. The concrete instances below are over the real numbers.
\<close>

record 'a vec4 =
  vx :: 'a
  vy :: 'a
  vz :: 'a
  vw :: 'a

text \<open>A \<^verbatim>\<open>glm::mat4\<close> is stored by columns; \<^verbatim>\<open>m * v\<close> is the matrix-vector product.\<close>

record 'a mat4 =
  col0 :: "'a vec4"
  col1 :: "'a vec4"
  col2 :: "'a vec4"
  col3 :: "'a vec4"

definition mat_mul :: "'a::{plus,times} mat4 \<Rightarrow> 'a vec4 \<Rightarrow> 'a vec4" where
  "mat_mul m v =
     \<lparr> vx = vx (col0 m) * vx v + vx (col1 m) * vy v + vx (col2 m) * vz v + vx (col3 m) * vw v,
       vy = vy (col0 m) * vx v + vy (col1 m) * vy v + vy (col2 m) * vz v + vy (col3 m) * vw v,
       vz = vz (col0 m) * vx v + vz (col1 m) * vy v + vz (col2 m) * vz v + vz (col3 m) * vw v,
       vw = vw (col0 m) * vx v + vw (col1 m) * vy v + vw (col2 m) * vz v + vw (col3 m) * vw v \<rparr>"

text \<open>
  Modelled from the spec: the class \<^verbatim>\<open>Triangle\<close> is declared in a header that is not part of
  the sources at hand. The spec gives it three vertices in homogeneous coordinates and a
  mutable boolean collision flag; the source reads \<^verbatim>\<open>v1\<close>, \<^verbatim>\<open>v2\<close>, \<^verbatim>\<open>v3\<close>,
  \<^verbatim>\<open>getVertices()\<close> and writes \<^verbatim>\<open>collision\<close>.
\<close>

record 'a Triangle =
  v1 :: "'a vec4"
  v2 :: "'a vec4"
  v3 :: "'a vec4"
  collision :: bool

definition getVertices :: "'a Triangle \<Rightarrow> 'a vec4 list" where
  "getVertices tr = [v1 tr, v2 tr, v3 tr]"

text \<open>
  The trees hold \<^verbatim>\<open>Triangle*\<close> pointers into triangles owned by the mesh. A pointer is an
  address, and the triangles live in a store that \<open>construct\<close> reads and \<open>test_collision\<close>
  updates, so a flag written through one pointer is seen through every other copy of it.
\<close>

type_synonym tri_ref = nat
type_synonym 'a heap = "tri_ref \<Rightarrow> 'a Triangle"

text \<open>
  Modelled from the spec: the class \<^verbatim>\<open>BVHNode\<close> is declared in a header that is not part of
  the sources at hand. The spec gives it the two corners of its box, its triangle pointers, an
  optional left and an optional right child that it owns, a depth counter and a collision flag
  that starts out false. A value of this type is an owning \<^verbatim>\<open>BVHNode*\<close>: \<open>Null\<close> is
  \<^verbatim>\<open>nullptr\<close>. The depth counter is read once by the source, on the node just created;
  that value is the parameter \<open>fresh_depth\<close> of \<open>construct\<close> below.
\<close>

datatype 'a BVHNode =
    Null
  | BVHNode (get_min: "'a vec4") (get_max: "'a vec4") (get_triangles: "tri_ref list")
            (get_left: "'a BVHNode") (get_right: "'a BVHNode") (node_collision: bool)

fun set_left :: "'a BVHNode \<Rightarrow> 'a BVHNode \<Rightarrow> 'a BVHNode" where
  "set_left l (BVHNode mn mx ts _ r c) = BVHNode mn mx ts l r c"
| "set_left l Null = Null"

fun set_right :: "'a BVHNode \<Rightarrow> 'a BVHNode \<Rightarrow> 'a BVHNode" where
  "set_right r (BVHNode mn mx ts l _ c) = BVHNode mn mx ts l r c"
| "set_right r Null = Null"

fun set_collision :: "bool \<Rightarrow> 'a BVHNode \<Rightarrow> 'a BVHNode" where
  "set_collision c (BVHNode mn mx ts l r _) = BVHNode mn mx ts l r c"
| "set_collision c Null = Null"

section \<open>The tree builder\<close>

subsection \<open>Bounding box of a triangle list\<close>

definition grow :: "'a::linorder vec4 \<Rightarrow> 'a vec4 \<times> 'a vec4 \<Rightarrow> 'a vec4 \<times> 'a vec4" where
  "grow vertex = (\<lambda>(minPoint, maxPoint).
     (minPoint\<lparr> vx := min (vx vertex) (vx minPoint),
                vy := min (vy vertex) (vy minPoint),
                vz := min (vz vertex) (vz minPoint) \<rparr>,
      maxPoint\<lparr> vx := max (vx vertex) (vx maxPoint),
                vy := max (vy vertex) (vy maxPoint),
                vz := max (vz vertex) (vz maxPoint) \<rparr>))"

definition bounds :: "'a::linorder heap \<Rightarrow> tri_ref \<Rightarrow> tri_ref list \<Rightarrow> 'a vec4 \<times> 'a vec4" where
  "bounds h t0 triangles =
     (let minPoint = v1 (h t0); maxPoint = minPoint
      in fold (\<lambda>tr. fold grow (getVertices (h tr))) triangles (minPoint, maxPoint))"

subsection \<open>Split plane\<close>

text \<open>
  The source records the chosen axis in three booleans \<^verbatim>\<open>isXLongest\<close>, \<^verbatim>\<open>isYLongest\<close>,
  \<^verbatim>\<open>isZLongest\<close>, of which its if-chain sets exactly one; \<open>axis\<close> is that choice.
\<close>

datatype axis = AxisX | AxisY | AxisZ

text \<open>The constant \<^verbatim>\<open>2.0f\<close>; in \<^verbatim>\<open>float\<close> arithmetic \<^verbatim>\<open>1.0f + 1.0f\<close> is exactly that value.\<close>

definition two :: "'a::{one,plus}" where
  "two = 1 + 1"

definition choose_split :: "'a::{linorder,plus,minus,abs,one,inverse} vec4 \<Rightarrow> 'a vec4 \<Rightarrow> axis \<times> 'a" where
  "choose_split minPoint maxPoint =
     (let xLength = \<bar>vx maxPoint - vx minPoint\<bar>;
          yLength = \<bar>vy maxPoint - vy minPoint\<bar>;
          zLength = \<bar>vz maxPoint - vz minPoint\<bar>
      in if xLength \<ge> yLength \<and> xLength \<ge> zLength then (AxisX, (vx minPoint + vx maxPoint) / two)
         else if yLength \<ge> xLength \<and> yLength \<ge> zLength then (AxisY, (vy minPoint + vy maxPoint) / two)
         else (AxisZ, (vz minPoint + vz maxPoint) / two))"

fun coord :: "axis \<Rightarrow> 'a vec4 \<Rightarrow> 'a" where
  "coord AxisX v = vx v"
| "coord AxisY v = vy v"
| "coord AxisZ v = vz v"

text \<open>
  Each triangle is pushed to the back of \<^verbatim>\<open>leftTriangles\<close> or of \<^verbatim>\<open>rightTriangles\<close>;
  \<open>classify\<close> is the decision of the loop body and \<open>split_triangles\<close> the loop.
\<close>

datatype side = ToLeft | ToRight

definition classify :: "axis \<Rightarrow> 'a::{linorder,minus} \<Rightarrow> 'a Triangle \<Rightarrow> side" where
  "classify ax splitCoord tr =
     (let firstVertexCoord = coord ax (v1 tr);
          secondVertexCoord = coord ax (v2 tr);
          thirdVertexCoord = coord ax (v3 tr)
      in if firstVertexCoord \<le> splitCoord \<and> secondVertexCoord \<le> splitCoord
            \<and> thirdVertexCoord \<le> splitCoord then ToLeft
         else if firstVertexCoord > splitCoord \<and> secondVertexCoord > splitCoord
            \<and> thirdVertexCoord > splitCoord then ToRight
         else
           let minDistance = min firstVertexCoord (min secondVertexCoord thirdVertexCoord);
               maxDistance = max firstVertexCoord (max secondVertexCoord thirdVertexCoord)
           in if splitCoord - minDistance \<ge> maxDistance - splitCoord then ToLeft else ToRight)"

fun split_triangles ::
  "'a::{linorder,minus} heap \<Rightarrow> axis \<Rightarrow> 'a \<Rightarrow> tri_ref list \<Rightarrow> tri_ref list \<times> tri_ref list
     \<Rightarrow> tri_ref list \<times> tri_ref list"
where
  "split_triangles h ax splitCoord [] (leftTriangles, rightTriangles) =
     (leftTriangles, rightTriangles)"
| "split_triangles h ax splitCoord (tr # trs) (leftTriangles, rightTriangles) =
     (case classify ax splitCoord (h tr) of
        ToLeft \<Rightarrow> split_triangles h ax splitCoord trs (leftTriangles @ [tr], rightTriangles)
      | ToRight \<Rightarrow> split_triangles h ax splitCoord trs (leftTriangles, rightTriangles @ [tr]))"

text \<open>The two candidate subsets of a node, as the source computes them from its triangle list.\<close>

definition subsets ::
  "'a::{linorder,plus,minus,abs,one,inverse} heap \<Rightarrow> tri_ref \<Rightarrow> tri_ref list \<Rightarrow> tri_ref list \<times> tri_ref list" where
  "subsets h t0 triangles =
     (let (minPoint, maxPoint) = bounds h t0 triangles;
          (ax, splitCoord) = choose_split minPoint maxPoint
      in split_triangles h ax splitCoord triangles ([], []))"

text \<open>
  \<^verbatim>\<open>leftTriangles.size() >= min_triangles_for_split\<close> compares a \<^verbatim>\<open>size_t\<close> with an
  \<^verbatim>\<open>int\<close>: the \<^verbatim>\<open>int\<close> is converted to the unsigned 64-bit type first, so a negative
  value becomes a very large one.
\<close>

definition size_ge :: "nat \<Rightarrow> int \<Rightarrow> bool" where
  "size_ge n min_triangles_for_split = (int n \<ge> min_triangles_for_split mod 2 ^ 64)"

lemma split_triangles_filter:
  "split_triangles h ax s ts (l, r) =
     (l @ filter (\<lambda>tr. classify ax s (h tr) = ToLeft) ts,
      r @ filter (\<lambda>tr. classify ax s (h tr) \<noteq> ToLeft) ts)"
  by (induction ts arbitrary: l r) (auto split: side.splits)

lemma subsets_length:
  "subsets h t0 ts = (l, r) \<Longrightarrow> length l + length r = length ts"
  by (auto simp: subsets_def split_triangles_filter sum_length_filter_compl split: prod.splits)

lemma subsets_left_shorter:
  "(l, r) = subsets h t0 ts \<Longrightarrow> r \<noteq> [] \<Longrightarrow> length l < length ts"
  using subsets_length [of h t0 ts l r] by (cases r) auto

lemma subsets_right_shorter:
  "(l, r) = subsets h t0 ts \<Longrightarrow> l \<noteq> [] \<Longrightarrow> length r < length ts"
  using subsets_length [of h t0 ts l r] by (cases l) auto

subsection \<open>construct\<close>

text \<open>
  \<^verbatim>\<open>triangles.at(0)\<close> throws \<^verbatim>\<open>std::out_of_range\<close> on an empty vector: the result is
  \<open>None\<close>. The first argument \<open>fresh_depth\<close> is the value of \<^verbatim>\<open>node->get_depth()\<close> on the
  node that the call has just created. The depths are unbounded integers here; the
  decrement \<^verbatim>\<open>max_depth - 1\<close> is executed only under \<^verbatim>\<open>get_depth() <= max_depth\<close>. The
  recursion ends because both subsets of a split that recurses are shorter than the list.
\<close>

function construct ::
  "int \<Rightarrow> 'a::{linorder,plus,minus,abs,one,inverse} heap \<Rightarrow> tri_ref list \<Rightarrow> int \<Rightarrow> int \<Rightarrow> 'a BVHNode option" where
  "construct fresh_depth h [] max_depth min_triangles_for_split = None"
| "construct fresh_depth h (t0 # rest) max_depth min_triangles_for_split =
     (let triangles = t0 # rest;
          (minPoint, maxPoint) = bounds h t0 triangles;
          node = BVHNode minPoint maxPoint triangles Null Null False;
          (leftTriangles, rightTriangles) = subsets h t0 triangles
      in if length leftTriangles > 0 \<and> length rightTriangles > 0 \<and> fresh_depth \<le> max_depth
         then do {
           l \<leftarrow> (if size_ge (length leftTriangles) min_triangles_for_split
                 then construct fresh_depth h leftTriangles (max_depth - 1) min_triangles_for_split
                 else construct fresh_depth h leftTriangles 0 min_triangles_for_split);
           r \<leftarrow> (if size_ge (length rightTriangles) min_triangles_for_split
                 then construct fresh_depth h rightTriangles (max_depth - 1) min_triangles_for_split
                 else construct fresh_depth h rightTriangles 0 min_triangles_for_split);
           Some (set_right r (set_left l node))
         }
         else Some node)"
  by pat_completeness auto
termination
  apply (relation "measure (\<lambda>(d, h, ts, md, m). length ts)")
  apply (auto dest: subsets_left_shorter subsets_right_shorter)
  done

text \<open>
  Modelled from the spec: the depth that \<^verbatim>\<open>get_depth()\<close> reports on a newly created
  \<^verbatim>\<open>BVHNode\<close> is set by the constructor, in the header that is not part of the sources at
  hand. The spec describes the depth test as "the remaining depth has not been exhausted" and
  says that a call with a remaining depth of 0 produces a leaf (4.1 step 5 and section 8). The
  test \<^verbatim>\<open>node->get_depth() <= max_depth\<close> fails at \<open>max_depth = 0\<close> exactly when the new node
  reports a depth above 0.
\<close>

definition spec_fresh_depth :: "int \<Rightarrow> bool" where
  "spec_fresh_depth fresh_depth = (0 < fresh_depth)"

section \<open>The collision tester\<close>

text \<open>
  The source's test returns when the boxes are apart on some axis; \<open>separated\<close> is that
  condition, on the two corners of each box multiplied by the model matrix of its mesh.
\<close>

definition separated :: "'a::{linorder,plus,times} BVHNode \<Rightarrow> 'a mat4 \<Rightarrow> 'a BVHNode \<Rightarrow> 'a mat4 \<Rightarrow> bool" where
  "separated first_node first_matrix second_node second_matrix =
     (let firstMin = mat_mul first_matrix (get_min first_node);
          firstMax = mat_mul first_matrix (get_max first_node);
          secondMin = mat_mul second_matrix (get_min second_node);
          secondMax = mat_mul second_matrix (get_max second_node)
      in \<not> (vx firstMax \<ge> vx secondMin \<and> vx firstMin \<le> vx secondMax) \<or>
         \<not> (vy firstMax \<ge> vy secondMin \<and> vy firstMin \<le> vy secondMax) \<or>
         \<not> (vz firstMax \<ge> vz secondMin \<and> vz firstMin \<le> vz secondMax))"

text \<open>
  The function \<^verbatim>\<open>triangle_triangle_intersection\<close> is not part of the sources at hand; it is a
  parameter of the model, a function of the two triangle objects and the two matrices.
\<close>

type_synonym 'a intersection = "'a Triangle \<Rightarrow> 'a mat4 \<Rightarrow> 'a Triangle \<Rightarrow> 'a mat4 \<Rightarrow> bool"

definition mark_triangle :: "tri_ref \<Rightarrow> 'a heap \<Rightarrow> 'a heap" where
  "mark_triangle p h = h(p := (h p)\<lparr>collision := True\<rparr>)"

definition test_pair ::
  "'a intersection \<Rightarrow> 'a mat4 \<Rightarrow> 'a mat4 \<Rightarrow> tri_ref \<Rightarrow> tri_ref \<Rightarrow> 'a heap \<Rightarrow> 'a heap" where
  "test_pair triangle_triangle_intersection first_matrix second_matrix ti tj h =
     (if triangle_triangle_intersection (h ti) first_matrix (h tj) second_matrix
      then mark_triangle tj (mark_triangle ti h) else h)"

definition check_triangles ::
  "'a intersection \<Rightarrow> tri_ref list \<Rightarrow> 'a mat4 \<Rightarrow> tri_ref list \<Rightarrow> 'a mat4 \<Rightarrow> 'a heap \<Rightarrow> 'a heap" where
  "check_triangles tti first_triangles first_matrix second_triangles second_matrix =
     fold (\<lambda>ti. fold (test_pair tti first_matrix second_matrix ti) second_triangles)
       first_triangles"

text \<open>
  \<open>test_collision\<close> changes flags of the two trees and of the triangles in place. The model
  passes the two trees and the triangle store through and returns them updated; the two
  trees are separate objects. A null child that the source dereferences
  (\<^verbatim>\<open>get_right()\<close> of a node that has a left child only) has no defined behaviour: the
  result is \<open>None\<close>.
\<close>

function test_collision ::
  "'a::{linorder,plus,times} intersection \<Rightarrow> 'a BVHNode \<Rightarrow> 'a mat4 \<Rightarrow> 'a BVHNode \<Rightarrow> 'a mat4 \<Rightarrow> 'a heap
     \<Rightarrow> ('a BVHNode \<times> 'a BVHNode \<times> 'a heap) option"
where
  "test_collision tti Null first_matrix second_node second_matrix h = None"
| "test_collision tti (BVHNode mn1 mx1 ts1 l1 r1 c1) first_matrix Null second_matrix h = None"
| "test_collision tti (BVHNode mn1 mx1 ts1 l1 r1 c1) first_matrix
                      (BVHNode mn2 mx2 ts2 l2 r2 c2) second_matrix h =
     (if separated (BVHNode mn1 mx1 ts1 l1 r1 c1) first_matrix
                   (BVHNode mn2 mx2 ts2 l2 r2 c2) second_matrix
      then Some (BVHNode mn1 mx1 ts1 l1 r1 c1, BVHNode mn2 mx2 ts2 l2 r2 c2, h)
      else
        let first_node = BVHNode mn1 mx1 ts1 l1 r1 True;
            second_node = BVHNode mn2 mx2 ts2 l2 r2 True
        in if l1 = Null \<and> l2 = Null then
             Some (first_node, second_node,
                   check_triangles tti ts1 first_matrix ts2 second_matrix h)
           else if l1 = Null then do {
             (a1, l2a, h1) \<leftarrow> test_collision tti first_node first_matrix l2 second_matrix h;
             (a2, r2a, h2) \<leftarrow> test_collision tti a1 first_matrix r2 second_matrix h1;
             Some (a2, BVHNode mn2 mx2 ts2 l2a r2a True, h2)
           }
           else if l2 = Null then do {
             (l1a, b1, h1) \<leftarrow> test_collision tti l1 first_matrix second_node second_matrix h;
             (r1a, b2, h2) \<leftarrow> test_collision tti r1 first_matrix b1 second_matrix h1;
             Some (BVHNode mn1 mx1 ts1 l1a r1a True, b2, h2)
           }
           else do {
             (l1a, l2a, h1) \<leftarrow> test_collision tti l1 first_matrix l2 second_matrix h;
             (l1b, r2a, h2) \<leftarrow> test_collision tti l1a first_matrix r2 second_matrix h1;
             (r1a, l2b, h3) \<leftarrow> test_collision tti r1 first_matrix l2a second_matrix h2;
             (r1b, r2b, h4) \<leftarrow> test_collision tti r1a first_matrix r2a second_matrix h3;
             Some (BVHNode mn1 mx1 ts1 l1b r1b True, BVHNode mn2 mx2 ts2 l2b r2b True, h4)
           })"
  by pat_completeness auto

text \<open>
  The second call of each branch runs on a tree that the first call returned, so termination
  needs that a call returns trees of the size it was given.
\<close>

lemma test_collision_size_dom:
  "test_collision_dom (tti, a, M, b, N, h) \<Longrightarrow> test_collision tti a M b N h = Some (a', b', h')
    \<Longrightarrow> size a' = size a \<and> size b' = size b"
proof (induction arbitrary: a' b' h' rule: test_collision.pinduct)
  case (1 tti first_matrix second_node second_matrix h)
  then show ?case by (simp add: test_collision.psimps)
next
  case (2 tti mn1 mx1 ts1 l1 r1 c1 first_matrix second_matrix h)
  then show ?case by (simp add: test_collision.psimps)
next
  case (3 tti mn1 mx1 ts1 l1 r1 c1 M mn2 mx2 ts2 l2 r2 c2 N h)
  note eq = "3.prems" [unfolded test_collision.psimps(3) [OF "3.hyps"]]
  show ?case
  proof (cases "separated (BVHNode mn1 mx1 ts1 l1 r1 c1) M (BVHNode mn2 mx2 ts2 l2 r2 c2) N")
    case True
    with eq show ?thesis by simp
  next
    case sep: False
    consider (leaves) "l1 = Null" "l2 = Null" | (first_leaf) "l1 = Null" "l2 \<noteq> Null"
      | (second_leaf) "l1 \<noteq> Null" "l2 = Null" | (inner) "l1 \<noteq> Null" "l2 \<noteq> Null"
      by blast
    then show ?thesis
    proof cases
      case leaves
      with sep eq show ?thesis by auto
    next
      case first_leaf
      with sep eq obtain a1 l2a h1 r2a where
        s1: "test_collision tti (BVHNode mn1 mx1 ts1 l1 r1 True) M l2 N h = Some (a1, l2a, h1)" and
        s2: "test_collision tti a1 M r2 N h1 = Some (a', r2a, h')" and
        b': "b' = BVHNode mn2 mx2 ts2 l2a r2a True"
        by (auto split: bind_splits)
      have ne: "\<not> (l1 = Null \<and> l2 = Null)" using first_leaf by simp
      from "3.IH"(1) [OF sep refl refl ne first_leaf(1) s1]
           "3.IH"(2) [OF sep refl refl ne first_leaf(1) s1 refl refl s2] b'
      show ?thesis by simp
    next
      case second_leaf
      with sep eq obtain l1a b1 h1 r1a where
        s1: "test_collision tti l1 M (BVHNode mn2 mx2 ts2 l2 r2 True) N h = Some (l1a, b1, h1)" and
        s2: "test_collision tti r1 M b1 N h1 = Some (r1a, b', h')" and
        a': "a' = BVHNode mn1 mx1 ts1 l1a r1a True"
        by (auto split: bind_splits)
      have ne: "\<not> (l1 = Null \<and> l2 = Null)" using second_leaf by simp
      from "3.IH"(3) [OF sep refl refl ne second_leaf s1]
           "3.IH"(4) [OF sep refl refl ne second_leaf s1 refl refl s2] a'
      show ?thesis by simp
    next
      case inner
      with sep eq obtain l1a l2a h1 l1b r2a h2 r1a l2b h3 r1b r2b where
        s1: "test_collision tti l1 M l2 N h = Some (l1a, l2a, h1)" and
        s2: "test_collision tti l1a M r2 N h1 = Some (l1b, r2a, h2)" and
        s3: "test_collision tti r1 M l2a N h2 = Some (r1a, l2b, h3)" and
        s4: "test_collision tti r1a M r2a N h3 = Some (r1b, r2b, h')" and
        a': "a' = BVHNode mn1 mx1 ts1 l1b r1b True" and
        b': "b' = BVHNode mn2 mx2 ts2 l2b r2b True"
        by (auto split: bind_splits)
      have ne: "\<not> (l1 = Null \<and> l2 = Null)" using inner by simp
      from "3.IH"(5) [OF sep refl refl ne inner s1]
           "3.IH"(6) [OF sep refl refl ne inner s1 refl refl s2]
           "3.IH"(7) [OF sep refl refl ne inner s1 refl refl s2 refl refl s3]
           "3.IH"(8) [OF sep refl refl ne inner s1 refl refl s2 refl refl s3 refl refl s4] a' b'
      show ?thesis by simp
    qed
  qed
qed

termination test_collision
  apply (relation "measure (\<lambda>(tti, a, M, b, N, h). size a + size b)")
  apply (auto dest!: test_collision_size_dom [rotated])
  done

declare construct.simps(2) [simp del]

section \<open>Notions used by the properties\<close>

text \<open>The nodes of a tree, the root first.\<close>

fun nodes :: "'a BVHNode \<Rightarrow> 'a BVHNode list" where
  "nodes Null = []"
| "nodes (BVHNode mn mx ts l r c) = BVHNode mn mx ts l r c # nodes l @ nodes r"

text \<open>A leaf, in the words of the spec: a node with no children on either side.\<close>

definition is_leaf :: "'a BVHNode \<Rightarrow> bool" where
  "is_leaf n = (get_left n = Null \<and> get_right n = Null)"

text \<open>
  Two triangles ten units apart along the x axis, at the addresses 10 and 20 of a store, for
  the concrete instances below.
\<close>

definition point :: "real \<Rightarrow> real \<Rightarrow> real \<Rightarrow> real vec4" where
  "point a b c = \<lparr> vx = a, vy = b, vz = c, vw = 1 \<rparr>"

definition triangle_at :: "real \<Rightarrow> real Triangle" where
  "triangle_at a = \<lparr> v1 = point a 0 0, v2 = point (a + 1) 0 0, v3 = point a 1 0, collision = False \<rparr>"

definition two_triangles :: "real heap" where
  "two_triangles = (\<lambda>p. if p = 10 then triangle_at 0 else triangle_at 10)"

text \<open>
  The trees that the builder returns for the two triangles: the root alone, and the root with
  one leaf for each triangle.
\<close>

definition single_node :: "real BVHNode" where
  "single_node = BVHNode (point 0 0 0) (point 11 1 0) [10, 20] Null Null False"

definition left_leaf :: "real BVHNode" where
  "left_leaf = BVHNode (point 0 0 0) (point 1 1 0) [10] Null Null False"

definition right_leaf :: "real BVHNode" where
  "right_leaf = BVHNode (point 10 0 0) (point 11 1 0) [20] Null Null False"

definition split_tree :: "real BVHNode" where
  "split_tree = BVHNode (point 0 0 0) (point 11 1 0) [10, 20] left_leaf right_leaf False"

text \<open>
  \<open>paired\<close>: every node of the tree has both children or none. \<open>test_collision\<close> then
  never follows a null child.
\<close>

fun paired :: "'a BVHNode \<Rightarrow> bool" where
  "paired Null = True"
| "paired (BVHNode mn mx ts l r c) = ((l = Null \<longleftrightarrow> r = Null) \<and> paired l \<and> paired r)"

text \<open>
  \<open>flags_le a a'\<close>: the trees \<open>a\<close> and \<open>a'\<close> have the same shape, boxes and triangle lists,
  and every collision flag that is set in \<open>a\<close> is set in \<open>a'\<close>. \<open>heap_le\<close> is the same for
  the triangles of two stores.
\<close>

fun flags_le :: "'a BVHNode \<Rightarrow> 'a BVHNode \<Rightarrow> bool" where
  "flags_le Null Null = True"
| "flags_le (BVHNode mn mx ts l r c) (BVHNode mn' mx' ts' l' r' c') =
     (mn = mn' \<and> mx = mx' \<and> ts = ts' \<and> (c \<longrightarrow> c') \<and> flags_le l l' \<and> flags_le r r')"
| "flags_le Null (BVHNode mn' mx' ts' l' r' c') = False"
| "flags_le (BVHNode mn mx ts l r c) Null = False"

definition heap_le :: "'a heap \<Rightarrow> 'a heap \<Rightarrow> bool" where
  "heap_le h h' = (\<forall>p. v1 (h' p) = v1 (h p) \<and> v2 (h' p) = v2 (h p) \<and> v3 (h' p) = v3 (h p)
                      \<and> (collision (h p) \<longrightarrow> collision (h' p)))"

text \<open>
  The intersection test is meant to look at the geometry of the two triangles. \<open>flag_blind\<close>
  says that its result does not depend on their collision flags.
\<close>

definition flag_blind :: "'a intersection \<Rightarrow> bool" where
  "flag_blind tti = (\<forall>t M u N c c'. tti (t\<lparr>collision := c\<rparr>) M (u\<lparr>collision := c'\<rparr>) N = tti t M u N)"

text \<open>
  \<open>raise_flags S h\<close> is the store \<open>h\<close> with the flag of every triangle in \<open>S\<close> set, and
  \<open>hits\<close> are the triangles of two lists that take part in a pair for which the
  intersection test answers yes.
\<close>

definition raise_flags :: "tri_ref set \<Rightarrow> 'a heap \<Rightarrow> 'a heap" where
  "raise_flags S h = (\<lambda>p. if p \<in> S then (h p)\<lparr>collision := True\<rparr> else h p)"

definition hits ::
  "'a intersection \<Rightarrow> 'a heap \<Rightarrow> tri_ref list \<Rightarrow> 'a mat4 \<Rightarrow> tri_ref list \<Rightarrow> 'a mat4 \<Rightarrow> tri_ref set" where
  "hits tti h ts1 M ts2 N =
     {p \<in> set ts1. \<exists>q \<in> set ts2. tti (h p) M (h q) N} \<union>
     {q \<in> set ts2. \<exists>p \<in> set ts1. tti (h p) M (h q) N}"

text \<open>The identity matrix, for the concrete instances.\<close>

definition identity :: "real mat4" where
  "identity = \<lparr> col0 = \<lparr> vx = 1, vy = 0, vz = 0, vw = 0 \<rparr>,
                 col1 = \<lparr> vx = 0, vy = 1, vz = 0, vw = 0 \<rparr>,
                 col2 = \<lparr> vx = 0, vy = 0, vz = 1, vw = 0 \<rparr>,
                 col3 = \<lparr> vx = 0, vy = 0, vz = 0, vw = 1 \<rparr> \<rparr>"

text \<open>The tree \<open>split_tree\<close> with the collision flag of every node set.\<close>

definition marked_tree :: "real BVHNode" where
  "marked_tree = BVHNode (point 0 0 0) (point 11 1 0) [10, 20]
     (BVHNode (point 0 0 0) (point 1 1 0) [10] Null Null True)
     (BVHNode (point 10 0 0) (point 11 1 0) [20] Null Null True) True"

text \<open>
  A triangle that reaches from 0 to 6 along x next to one between 9 and 10: the first one
  straddles the split plane of their common box. The tree is the one the builder returns.
\<close>

definition wide_triangle :: "real Triangle" where
  "wide_triangle = \<lparr> v1 = point 0 0 0, v2 = point 6 0 0, v3 = point 0 1 0, collision = False \<rparr>"

definition straddle_triangles :: "real heap" where
  "straddle_triangles = (\<lambda>p. if p = 10 then wide_triangle else triangle_at 9)"

definition straddle_tree :: "real BVHNode" where
  "straddle_tree = BVHNode (point 0 0 0) (point 10 1 0) [10, 20]
     (BVHNode (point 0 0 0) (point 6 1 0) [10] Null Null False)
     (BVHNode (point 9 0 0) (point 10 1 0) [20] Null Null False) False"

text \<open>A triangle whose three vertices coincide, and the one-node tree built from it.\<close>

definition dot_triangles :: "real heap" where
  "dot_triangles = (\<lambda>p. \<lparr> v1 = point 5 6 7, v2 = point 5 6 7, v3 = point 5 6 7, collision = False \<rparr>)"

definition dot_node :: "real BVHNode" where
  "dot_node = BVHNode (point 5 6 7) (point 5 6 7) [10] Null Null False"

text \<open>
  A store with a triangle starting at x = p at every address p, two leaves holding two of its
  triangles each, a translation along x that brings their boxes together, and two
  intersection tests that look only at positions: one answers yes for the last pair of the
  cross product alone, the other for its first and its last pair.
\<close>

definition row_of_triangles :: "real heap" where
  "row_of_triangles = (\<lambda>p. triangle_at (real p))"

definition first_pair_leaf :: "real BVHNode" where
  "first_pair_leaf = BVHNode (point 10 0 0) (point 21 1 0) [10, 20] Null Null False"

definition second_pair_leaf :: "real BVHNode" where
  "second_pair_leaf = BVHNode (point 30 0 0) (point 41 1 0) [30, 40] Null Null False"

definition translate_x :: "real \<Rightarrow> real mat4" where
  "translate_x d = identity\<lparr> col3 := \<lparr> vx = d, vy = 0, vz = 0, vw = 1 \<rparr> \<rparr>"

definition last_pair_only :: "real intersection" where
  "last_pair_only t M u N = (vx (v1 t) = 20 \<and> vx (v1 u) = 40)"

definition first_and_last_pair :: "real intersection" where
  "first_and_last_pair t M u N =
     (vx (v1 t) = 10 \<and> vx (v1 u) = 30 \<or> vx (v1 t) = 20 \<and> vx (v1 u) = 40)"

text \<open>A point lies in a box when it does so on the x, the y and the z axis.\<close>

definition inside :: "'a::linorder vec4 \<Rightarrow> 'a vec4 \<times> 'a vec4 \<Rightarrow> bool" where
  "inside v = (\<lambda>(mn, mx). vx mn \<le> vx v \<and> vx v \<le> vx mx \<and> vy mn \<le> vy v \<and> vy v \<le> vy mx
                 \<and> vz mn \<le> vz v \<and> vz v \<le> vz mx)"

lemmas example_defs = two_triangles_def triangle_at_def point_def bounds_def grow_def getVertices_def
  subsets_def choose_split_def classify_def size_ge_def construct.simps

section \<open>Facts about the tree builder\<close>

lemma construct_Some_cases:
  assumes "construct d h ts md m = Some t"
  obtains
    (leaf) t0 rest where "ts = t0 # rest"
      "t = BVHNode (fst (bounds h t0 ts)) (snd (bounds h t0 ts)) ts Null Null False"
      "fst (subsets h t0 ts) = [] \<or> snd (subsets h t0 ts) = [] \<or> md < d"
  | (inner) t0 rest lt rt mdl mdr where "ts = t0 # rest"
      "fst (subsets h t0 ts) \<noteq> []" "snd (subsets h t0 ts) \<noteq> []" "d \<le> md"
      "construct d h (fst (subsets h t0 ts)) mdl m = Some lt"
      "construct d h (snd (subsets h t0 ts)) mdr m = Some rt"
      "t = BVHNode (fst (bounds h t0 ts)) (snd (bounds h t0 ts)) ts lt rt False"
proof (cases ts)
  case Nil
  with assms show ?thesis by simp
next
  case (Cons t0 rest)
  show ?thesis
  proof (cases "fst (subsets h t0 ts) \<noteq> [] \<and> snd (subsets h t0 ts) \<noteq> [] \<and> d \<le> md")
    case False
    with assms Cons have "t = BVHNode (fst (bounds h t0 ts)) (snd (bounds h t0 ts)) ts Null Null False"
      by (auto simp: construct.simps Let_def split: prod.splits)
    with False Cons leaf show ?thesis by auto
  next
    case True
    with assms Cons obtain lt rt mdl mdr where
      "construct d h (fst (subsets h t0 ts)) mdl m = Some lt"
      "construct d h (snd (subsets h t0 ts)) mdr m = Some rt"
      "t = BVHNode (fst (bounds h t0 ts)) (snd (bounds h t0 ts)) ts lt rt False"
      by (auto simp: construct.simps Let_def split: prod.splits bind_splits if_splits)
    with True Cons inner show ?thesis by blast
  qed
qed


lemma construct_not_Null: "construct d h ts md m = Some t \<Longrightarrow> t \<noteq> Null"
  by (erule construct_Some_cases) auto

lemma construct_triangles: "construct d h ts md m = Some t \<Longrightarrow> get_triangles t = ts"
  by (erule construct_Some_cases) auto

lemma construct_box:
  "construct d h ts md m = Some t \<Longrightarrow> (get_min t, get_max t) = bounds h (hd ts) ts"
  by (erule construct_Some_cases) auto

lemma construct_nodes:
  "construct d h ts md m = Some t \<Longrightarrow> n \<in> set (nodes t)
     \<Longrightarrow> \<exists>ts' md'. construct d h ts' md' m = Some n"
proof (induction "length ts" arbitrary: ts md t rule: less_induct)
  case less
  from less.prems(1) show ?case
  proof (cases rule: construct_Some_cases)
    case (leaf t0 rest)
    with less.prems(2) have "n = t" by simp
    with less.prems(1) show ?thesis by blast
  next
    case (inner t0 rest lt rt mdl mdr)
    from inner(1-3) have short:
      "length (fst (subsets h t0 ts)) < length ts" "length (snd (subsets h t0 ts)) < length ts"
      using subsets_left_shorter [of "fst (subsets h t0 ts)" "snd (subsets h t0 ts)" h t0 ts]
            subsets_right_shorter [of "fst (subsets h t0 ts)" "snd (subsets h t0 ts)" h t0 ts]
      by auto
    from less.prems(2) inner(7) consider "n = t" | "n \<in> set (nodes lt)" | "n \<in> set (nodes rt)"
      by auto
    then show ?thesis
    proof cases
      case 1
      with less.prems(1) show ?thesis by blast
    next
      case 2
      from less.hyps [OF short(1) inner(5) 2] show ?thesis .
    next
      case 3
      from less.hyps [OF short(2) inner(6) 3] show ?thesis .
    qed
  qed
qed

lemma construct_total: "ts \<noteq> [] \<Longrightarrow> \<exists>t. construct d h ts md m = Some t"
proof (induction "length ts" arbitrary: ts md rule: less_induct)
  case less
  then obtain t0 rest where ts: "ts = t0 # rest" by (cases ts) auto
  let ?l = "fst (subsets h t0 ts)" and ?r = "snd (subsets h t0 ts)"
  show ?case
  proof (cases "?l \<noteq> [] \<and> ?r \<noteq> [] \<and> d \<le> md")
    case False
    then show ?thesis unfolding ts by (auto simp: construct.simps Let_def split: prod.splits)
  next
    case True
    then have short: "length ?l < length ts" "length ?r < length ts"
      using subsets_left_shorter [of ?l ?r h t0 ts] subsets_right_shorter [of ?l ?r h t0 ts]
      by auto
    from True less.hyps [OF short(1)] less.hyps [OF short(2)]
    have "\<And>md'. \<exists>t. construct d h ?l md' m = Some t" "\<And>md'. \<exists>t. construct d h ?r md' m = Some t"
      by auto
    then obtain la lb ra rb where
      "construct d h ?l (md - 1) m = Some la" "construct d h ?l 0 m = Some lb"
      "construct d h ?r (md - 1) m = Some ra" "construct d h ?r 0 m = Some rb"
      by metis
    with True show ?thesis unfolding ts by (auto simp: construct.simps Let_def split: prod.splits)
  qed
qed


lemma inside_grow_same: "inside v (grow v b)"
  by (cases b) (simp add: inside_def grow_def)

lemma inside_grow_keep: "inside v b \<Longrightarrow> inside v (grow u b)"
  by (cases b) (auto simp: inside_def grow_def min_le_iff_disj le_max_iff_disj)

lemma inside_fold_grow_keep: "inside v b \<Longrightarrow> inside v (fold grow vs b)"
  by (induction vs arbitrary: b) (auto simp: inside_grow_keep)

lemma inside_fold_grow: "v \<in> set vs \<Longrightarrow> inside v (fold grow vs b)"
proof (induction vs arbitrary: b)
  case Nil
  then show ?case by simp
next
  case (Cons a vs)
  show ?case
  proof (cases "v = a")
    case True
    then show ?thesis by (simp add: inside_grow_same inside_fold_grow_keep)
  next
    case False
    with Cons show ?thesis by simp
  qed
qed

lemma inside_fold_triangles_keep:
  "inside v b \<Longrightarrow> inside v (fold (\<lambda>tr. fold grow (getVertices (h tr))) ts b)"
  by (induction ts arbitrary: b) (auto simp: inside_fold_grow_keep)

lemma inside_fold_triangles:
  "p \<in> set ts \<Longrightarrow> v \<in> set (getVertices (h p))
     \<Longrightarrow> inside v (fold (\<lambda>tr. fold grow (getVertices (h tr))) ts b)"
proof (induction ts arbitrary: b)
  case Nil
  then show ?case by simp
next
  case (Cons a ts)
  show ?case
  proof (cases "p = a")
    case True
    with Cons.prems show ?thesis by (simp add: inside_fold_grow inside_fold_triangles_keep)
  next
    case False
    with Cons show ?thesis by simp
  qed
qed

lemma inside_bounds:
  "p \<in> set ts \<Longrightarrow> v \<in> set (getVertices (h p)) \<Longrightarrow> inside v (bounds h t0 ts)"
  by (simp add: bounds_def Let_def inside_fold_triangles)

lemma subsets_filter:
  "\<exists>ax s. subsets h t0 ts =
     (filter (\<lambda>p. classify ax s (h p) = ToLeft) ts, filter (\<lambda>p. classify ax s (h p) \<noteq> ToLeft) ts)"
  by (auto simp: subsets_def split_triangles_filter split: prod.splits)

lemma construct_root_children:
  assumes "construct d h ts md m = Some t" and "\<not> is_leaf t"
  obtains t0 where "ts = t0 # tl ts"
    "get_left t \<noteq> Null" "get_right t \<noteq> Null"
    "get_triangles (get_left t) = fst (subsets h t0 ts)"
    "get_triangles (get_right t) = snd (subsets h t0 ts)"
    "fst (subsets h t0 ts) \<noteq> []" "snd (subsets h t0 ts) \<noteq> []" "d \<le> md"
  using assms(1)
proof (cases rule: construct_Some_cases)
  case (leaf t0 rest)
  with assms(2) show ?thesis by (simp add: is_leaf_def)
next
  case (inner t0 rest lt rt mdl mdr)
  with construct_not_Null [OF inner(5)] construct_not_Null [OF inner(6)]
       construct_triangles [OF inner(5)] construct_triangles [OF inner(6)] that [of t0]
  show ?thesis by simp
qed



subsection \<open>The builder on the two example triangles\<close>

lemma two_triangles_bounds:
  "bounds two_triangles 10 [10, 20] = (point 0 0 0, point 11 1 0)"
  "bounds two_triangles 10 [10] = (point 0 0 0, point 1 1 0)"
  "bounds two_triangles 20 [20] = (point 10 0 0, point 11 1 0)"
  by (simp_all add: two_triangles_def triangle_at_def point_def bounds_def grow_def getVertices_def)

lemma two_triangles_subsets:
  "subsets two_triangles 10 [10, 20] = ([10], [20])"
  "subsets two_triangles 10 [10] = ([10], [])"
  "subsets two_triangles 20 [20] = ([20], [])"
  unfolding subsets_def two_triangles_bounds
  by (simp_all add: two_triangles_def triangle_at_def point_def choose_split_def classify_def
        two_def)

lemma two_triangles_construct:
  "construct 1 two_triangles [10, 20] 1 1 = Some split_tree"
  "construct 1 two_triangles [10, 20] 0 1 = Some single_node"
  by (simp_all add: construct.simps two_triangles_bounds two_triangles_subsets size_ge_def
        split_tree_def left_leaf_def right_leaf_def single_node_def)

text \<open>
  The depth that a new node reports matters: were it 0, the call with \<open>max_depth = 0\<close> would
  split the two triangles as well.
\<close>

lemma two_triangles_fresh_depth_zero:
  "construct 0 two_triangles [10, 20] 0 1 = Some split_tree"
  by (simp add: construct.simps two_triangles_bounds two_triangles_subsets size_ge_def
        split_tree_def left_leaf_def right_leaf_def)

subsection \<open>The split of a node\<close>

lemma construct_children_split:
  assumes "construct fresh_depth h triangles max_depth m = Some t"
    and "n \<in> set (nodes t)" and "\<not> is_leaf n"
  shows "(get_triangles (get_left n), get_triangles (get_right n)) =
           split_triangles h (fst (choose_split (get_min n) (get_max n)))
             (snd (choose_split (get_min n) (get_max n))) (get_triangles n) ([], [])"
proof -
  from construct_nodes [OF assms(1,2)] obtain ts' md' where
    c: "construct fresh_depth h ts' md' m = Some n" by blast
  from c assms(3) obtain t0 where
    ts: "ts' = t0 # tl ts'" and
    ch: "get_triangles (get_left n) = fst (subsets h t0 ts')"
      "get_triangles (get_right n) = snd (subsets h t0 ts')"
    by (rule construct_root_children)
  have hd: "hd ts' = t0" using ts by (cases ts') simp_all
  have box: "bounds h t0 ts' = (get_min n, get_max n)"
    using construct_box [OF c] hd by simp
  have "subsets h t0 ts' =
      split_triangles h (fst (choose_split (get_min n) (get_max n)))
             (snd (choose_split (get_min n) (get_max n))) ts' ([], [])"
    by (simp add: subsets_def box split: prod.splits)
  with ch construct_triangles [OF c] show ?thesis by simp
qed

lemma construct_node_budget:
  assumes "construct fresh_depth h triangles max_depth m = Some t"
    and "n \<in> set (nodes t)" and "\<not> is_leaf n"
  shows "fst (subsets h (hd (get_triangles n)) (get_triangles n)) \<noteq> [] \<and>
         snd (subsets h (hd (get_triangles n)) (get_triangles n)) \<noteq> [] \<and>
         (\<exists>md'. construct fresh_depth h (get_triangles n) md' m = Some n \<and> fresh_depth \<le> md')"
proof -
  from construct_nodes [OF assms(1,2)] obtain ts' md' where
    c: "construct fresh_depth h ts' md' m = Some n" by blast
  from c assms(3) obtain t0 where
    ts: "ts' = t0 # tl ts'" and
    ne: "fst (subsets h t0 ts') \<noteq> []" "snd (subsets h t0 ts') \<noteq> []" "fresh_depth \<le> md'"
    by (rule construct_root_children)
  have hd: "hd ts' = t0" using ts by (cases ts') simp_all
  from ne hd c construct_triangles [OF c] show ?thesis by auto
qed

lemma choose_split_axis:
  fixes minPoint maxPoint :: "'a::{linorder,plus,minus,abs,one,inverse} vec4"
  defines "xLength \<equiv> \<bar>vx maxPoint - vx minPoint\<bar>"
    and "yLength \<equiv> \<bar>vy maxPoint - vy minPoint\<bar>"
    and "zLength \<equiv> \<bar>vz maxPoint - vz minPoint\<bar>"
  shows "fst (choose_split minPoint maxPoint) = AxisX \<longleftrightarrow> xLength \<ge> yLength \<and> xLength \<ge> zLength"
    and "fst (choose_split minPoint maxPoint) = AxisY \<longleftrightarrow> yLength > xLength \<and> yLength \<ge> zLength"
    and "fst (choose_split minPoint maxPoint) = AxisZ \<longleftrightarrow> zLength > xLength \<and> zLength > yLength"
    and "snd (choose_split minPoint maxPoint) =
           (coord (fst (choose_split minPoint maxPoint)) minPoint +
            coord (fst (choose_split minPoint maxPoint)) maxPoint) / two"
  unfolding xLength_def yLength_def zLength_def
  by (auto simp: choose_split_def Let_def)

subsection \<open>The builder on the other examples\<close>

lemma straddle_triangles_bounds:
  "bounds straddle_triangles 10 [10, 20] = (point 0 0 0, point 10 1 0)"
  "bounds straddle_triangles 10 [10] = (point 0 0 0, point 6 1 0)"
  "bounds straddle_triangles 20 [20] = (point 9 0 0, point 10 1 0)"
  by (simp_all add: straddle_triangles_def wide_triangle_def triangle_at_def point_def bounds_def
        grow_def getVertices_def)

lemma straddle_triangles_split:
  "choose_split (point 0 0 0) (point 10 1 0) = (AxisX, 5)"
  "choose_split (point 0 0 0) (point 6 1 0) = (AxisX, 3)"
  "choose_split (point 9 0 0) (point 10 1 0) = (AxisX, 19 / 2)"
  by (simp_all add: choose_split_def point_def two_def)

lemma straddle_triangles_subsets:
  "subsets straddle_triangles 10 [10, 20] = ([10], [20])"
  "subsets straddle_triangles 10 [10] = ([10], [])"
  "subsets straddle_triangles 20 [20] = ([20], [])"
  unfolding subsets_def straddle_triangles_bounds
  by (simp_all add: straddle_triangles_split)
     (simp_all add: straddle_triangles_def wide_triangle_def triangle_at_def point_def classify_def)

lemma straddle_triangles_construct:
  "construct 1 straddle_triangles [10, 20] 1 1 = Some straddle_tree"
  by (simp add: construct.simps straddle_triangles_bounds straddle_triangles_subsets size_ge_def
        straddle_tree_def)

lemma dot_triangles_bounds: "bounds dot_triangles 10 [10] = (point 5 6 7, point 5 6 7)"
  by (simp add: dot_triangles_def bounds_def grow_def getVertices_def point_def Let_def)

lemma dot_triangles_split: "choose_split (point 5 6 7) (point 5 6 7) = (AxisX, 5)"
  by (simp add: choose_split_def point_def two_def)

lemma dot_triangles_subsets: "subsets dot_triangles 10 [10] = ([10], [])"
  unfolding subsets_def dot_triangles_bounds
  by (simp add: dot_triangles_split) (simp add: dot_triangles_def point_def classify_def)

lemma dot_triangles_construct:
  "construct 1 dot_triangles [10] 1 1 = Some dot_node"
  by (simp add: construct.simps dot_triangles_bounds dot_triangles_subsets dot_node_def)

lemma row_of_triangles_construct:
  "construct 1 row_of_triangles [10, 20] 0 1 = Some first_pair_leaf"
  "construct 1 row_of_triangles [30, 40] 0 1 = Some second_pair_leaf"
  by (simp_all add: construct.simps row_of_triangles_def triangle_at_def point_def bounds_def
        grow_def getVertices_def first_pair_leaf_def second_pair_leaf_def split: prod.splits)

section \<open>Facts about the collision tester\<close>

subsection \<open>The branches of test_collision\<close>

lemma test_collision_separated:
  "separated (BVHNode mn1 mx1 ts1 l1 r1 c1) M (BVHNode mn2 mx2 ts2 l2 r2 c2) N \<Longrightarrow>
   test_collision tti (BVHNode mn1 mx1 ts1 l1 r1 c1) M (BVHNode mn2 mx2 ts2 l2 r2 c2) N h
     = Some (BVHNode mn1 mx1 ts1 l1 r1 c1, BVHNode mn2 mx2 ts2 l2 r2 c2, h)"
  by simp

lemma test_collision_leaves:
  "\<not> separated (BVHNode mn1 mx1 ts1 Null r1 c1) M (BVHNode mn2 mx2 ts2 Null r2 c2) N \<Longrightarrow>
   test_collision tti (BVHNode mn1 mx1 ts1 Null r1 c1) M (BVHNode mn2 mx2 ts2 Null r2 c2) N h
     = Some (BVHNode mn1 mx1 ts1 Null r1 True, BVHNode mn2 mx2 ts2 Null r2 True,
             check_triangles tti ts1 M ts2 N h)"
  by simp

lemma test_collision_first_leaf:
  "\<not> separated (BVHNode mn1 mx1 ts1 Null r1 c1) M (BVHNode mn2 mx2 ts2 l2 r2 c2) N \<Longrightarrow>
   l2 \<noteq> Null \<Longrightarrow>
   test_collision tti (BVHNode mn1 mx1 ts1 Null r1 c1) M (BVHNode mn2 mx2 ts2 l2 r2 c2) N h
     = do {
         (a1, l2a, h1) \<leftarrow> test_collision tti (BVHNode mn1 mx1 ts1 Null r1 True) M l2 N h;
         (a2, r2a, h2) \<leftarrow> test_collision tti a1 M r2 N h1;
         Some (a2, BVHNode mn2 mx2 ts2 l2a r2a True, h2)
       }"
  by simp

lemma test_collision_second_leaf:
  "\<not> separated (BVHNode mn1 mx1 ts1 l1 r1 c1) M (BVHNode mn2 mx2 ts2 Null r2 c2) N \<Longrightarrow>
   l1 \<noteq> Null \<Longrightarrow>
   test_collision tti (BVHNode mn1 mx1 ts1 l1 r1 c1) M (BVHNode mn2 mx2 ts2 Null r2 c2) N h
     = do {
         (l1a, b1, h1) \<leftarrow> test_collision tti l1 M (BVHNode mn2 mx2 ts2 Null r2 True) N h;
         (r1a, b2, h2) \<leftarrow> test_collision tti r1 M b1 N h1;
         Some (BVHNode mn1 mx1 ts1 l1a r1a True, b2, h2)
       }"
  by simp

lemma test_collision_inner:
  "\<not> separated (BVHNode mn1 mx1 ts1 l1 r1 c1) M (BVHNode mn2 mx2 ts2 l2 r2 c2) N \<Longrightarrow>
   l1 \<noteq> Null \<Longrightarrow> l2 \<noteq> Null \<Longrightarrow>
   test_collision tti (BVHNode mn1 mx1 ts1 l1 r1 c1) M (BVHNode mn2 mx2 ts2 l2 r2 c2) N h
     = do {
         (l1a, l2a, h1) \<leftarrow> test_collision tti l1 M l2 N h;
         (l1b, r2a, h2) \<leftarrow> test_collision tti l1a M r2 N h1;
         (r1a, l2b, h3) \<leftarrow> test_collision tti r1 M l2a N h2;
         (r1b, r2b, h4) \<leftarrow> test_collision tti r1a M r2a N h3;
         Some (BVHNode mn1 mx1 ts1 l1b r1b True, BVHNode mn2 mx2 ts2 l2b r2b True, h4)
       }"
  by simp

declare test_collision.simps(3) [simp del]

subsection \<open>Induction over the calls that return\<close>

lemma test_collision_size:
  "test_collision tti a M b N h = Some (a', b', h') \<Longrightarrow> size a' = size a \<and> size b' = size b"
proof (induction tti a M b N h arbitrary: a' b' h' rule: test_collision.induct)
  case (1 tti first_matrix second_node second_matrix h)
  then show ?case by simp
next
  case (2 tti mn1 mx1 ts1 l1 r1 c1 first_matrix second_matrix h)
  then show ?case by simp
next
  case (3 tti mn1 mx1 ts1 l1 r1 c1 M mn2 mx2 ts2 l2 r2 c2 N h)
  note eq = "3.prems"
  show ?case
  proof (cases "separated (BVHNode mn1 mx1 ts1 l1 r1 c1) M (BVHNode mn2 mx2 ts2 l2 r2 c2) N")
    case True
    with eq show ?thesis by (simp add: test_collision_separated)
  next
    case sep: False
    consider (leaves) "l1 = Null" "l2 = Null" | (first_leaf) "l1 = Null" "l2 \<noteq> Null"
      | (second_leaf) "l1 \<noteq> Null" "l2 = Null" | (inner) "l1 \<noteq> Null" "l2 \<noteq> Null"
      by blast
    then show ?thesis
    proof cases
      case leaves
      with sep eq show ?thesis by (auto simp: test_collision_leaves)
    next
      case first_leaf
      with sep eq obtain a1 l2a h1 r2a where
        s1: "test_collision tti (BVHNode mn1 mx1 ts1 l1 r1 True) M l2 N h = Some (a1, l2a, h1)" and
        s2: "test_collision tti a1 M r2 N h1 = Some (a', r2a, h')" and
        b': "b' = BVHNode mn2 mx2 ts2 l2a r2a True"
        by (auto simp: test_collision_first_leaf split: bind_splits)
      have ne: "\<not> (l1 = Null \<and> l2 = Null)" using first_leaf by simp
      from "3.IH"(1) [OF sep refl refl ne first_leaf(1) s1]
           "3.IH"(2) [OF sep refl refl ne first_leaf(1) s1 refl refl s2] b'
      show ?thesis by simp
    next
      case second_leaf
      with sep eq obtain l1a b1 h1 r1a where
        s1: "test_collision tti l1 M (BVHNode mn2 mx2 ts2 l2 r2 True) N h = Some (l1a, b1, h1)" and
        s2: "test_collision tti r1 M b1 N h1 = Some (r1a, b', h')" and
        a': "a' = BVHNode mn1 mx1 ts1 l1a r1a True"
        by (auto simp: test_collision_second_leaf split: bind_splits)
      have ne: "\<not> (l1 = Null \<and> l2 = Null)" using second_leaf by simp
      from "3.IH"(3) [OF sep refl refl ne second_leaf s1]
           "3.IH"(4) [OF sep refl refl ne second_leaf s1 refl refl s2] a'
      show ?thesis by simp
    next
      case inner
      with sep eq obtain l1a l2a h1 l1b r2a h2 r1a l2b h3 r1b r2b where
        s1: "test_collision tti l1 M l2 N h = Some (l1a, l2a, h1)" and
        s2: "test_collision tti l1a M r2 N h1 = Some (l1b, r2a, h2)" and
        s3: "test_collision tti r1 M l2a N h2 = Some (r1a, l2b, h3)" and
        s4: "test_collision tti r1a M r2a N h3 = Some (r1b, r2b, h')" and
        a': "a' = BVHNode mn1 mx1 ts1 l1b r1b True" and
        b': "b' = BVHNode mn2 mx2 ts2 l2b r2b True"
        by (auto simp: test_collision_inner split: bind_splits)
      have ne: "\<not> (l1 = Null \<and> l2 = Null)" using inner by simp
      from "3.IH"(5) [OF sep refl refl ne inner s1]
           "3.IH"(6) [OF sep refl refl ne inner s1 refl refl s2]
           "3.IH"(7) [OF sep refl refl ne inner s1 refl refl s2 refl refl s3]
           "3.IH"(8) [OF sep refl refl ne inner s1 refl refl s2 refl refl s3 refl refl s4] a' b'
      show ?thesis by simp
    qed
  qed
qed

lemma test_collision_result_induct [consumes 1, case_names separated leaves first_leaf second_leaf inner]:
  assumes "test_collision tti a M b N h = Some (a', b', h')"
    and "\<And>mn1 mx1 ts1 l1 r1 c1 mn2 mx2 ts2 l2 r2 c2 h.
      separated (BVHNode mn1 mx1 ts1 l1 r1 c1) M (BVHNode mn2 mx2 ts2 l2 r2 c2) N \<Longrightarrow>
      P (BVHNode mn1 mx1 ts1 l1 r1 c1) (BVHNode mn2 mx2 ts2 l2 r2 c2) h
        (BVHNode mn1 mx1 ts1 l1 r1 c1) (BVHNode mn2 mx2 ts2 l2 r2 c2) h"
    and "\<And>mn1 mx1 ts1 r1 c1 mn2 mx2 ts2 r2 c2 h.
      \<not> separated (BVHNode mn1 mx1 ts1 Null r1 c1) M (BVHNode mn2 mx2 ts2 Null r2 c2) N \<Longrightarrow>
      P (BVHNode mn1 mx1 ts1 Null r1 c1) (BVHNode mn2 mx2 ts2 Null r2 c2) h
        (BVHNode mn1 mx1 ts1 Null r1 True) (BVHNode mn2 mx2 ts2 Null r2 True)
        (check_triangles tti ts1 M ts2 N h)"
    and "\<And>mn1 mx1 ts1 r1 c1 mn2 mx2 ts2 l2 r2 c2 h a1 l2a h1 a2 r2a h2.
      \<not> separated (BVHNode mn1 mx1 ts1 Null r1 c1) M (BVHNode mn2 mx2 ts2 l2 r2 c2) N \<Longrightarrow>
      l2 \<noteq> Null \<Longrightarrow>
      test_collision tti (BVHNode mn1 mx1 ts1 Null r1 True) M l2 N h = Some (a1, l2a, h1) \<Longrightarrow>
      test_collision tti a1 M r2 N h1 = Some (a2, r2a, h2) \<Longrightarrow>
      P (BVHNode mn1 mx1 ts1 Null r1 True) l2 h a1 l2a h1 \<Longrightarrow>
      P a1 r2 h1 a2 r2a h2 \<Longrightarrow>
      P (BVHNode mn1 mx1 ts1 Null r1 c1) (BVHNode mn2 mx2 ts2 l2 r2 c2) h
        a2 (BVHNode mn2 mx2 ts2 l2a r2a True) h2"
    and "\<And>mn1 mx1 ts1 l1 r1 c1 mn2 mx2 ts2 r2 c2 h l1a b1 h1 r1a b2 h2.
      \<not> separated (BVHNode mn1 mx1 ts1 l1 r1 c1) M (BVHNode mn2 mx2 ts2 Null r2 c2) N \<Longrightarrow>
      l1 \<noteq> Null \<Longrightarrow>
      test_collision tti l1 M (BVHNode mn2 mx2 ts2 Null r2 True) N h = Some (l1a, b1, h1) \<Longrightarrow>
      test_collision tti r1 M b1 N h1 = Some (r1a, b2, h2) \<Longrightarrow>
      P l1 (BVHNode mn2 mx2 ts2 Null r2 True) h l1a b1 h1 \<Longrightarrow>
      P r1 b1 h1 r1a b2 h2 \<Longrightarrow>
      P (BVHNode mn1 mx1 ts1 l1 r1 c1) (BVHNode mn2 mx2 ts2 Null r2 c2) h
        (BVHNode mn1 mx1 ts1 l1a r1a True) b2 h2"
    and "\<And>mn1 mx1 ts1 l1 r1 c1 mn2 mx2 ts2 l2 r2 c2 h l1a l2a h1 l1b r2a h2 r1a l2b h3 r1b r2b h4.
      \<not> separated (BVHNode mn1 mx1 ts1 l1 r1 c1) M (BVHNode mn2 mx2 ts2 l2 r2 c2) N \<Longrightarrow>
      l1 \<noteq> Null \<Longrightarrow> l2 \<noteq> Null \<Longrightarrow>
      test_collision tti l1 M l2 N h = Some (l1a, l2a, h1) \<Longrightarrow>
      test_collision tti l1a M r2 N h1 = Some (l1b, r2a, h2) \<Longrightarrow>
      test_collision tti r1 M l2a N h2 = Some (r1a, l2b, h3) \<Longrightarrow>
      test_collision tti r1a M r2a N h3 = Some (r1b, r2b, h4) \<Longrightarrow>
      P l1 l2 h l1a l2a h1 \<Longrightarrow> P l1a r2 h1 l1b r2a h2 \<Longrightarrow>
      P r1 l2a h2 r1a l2b h3 \<Longrightarrow> P r1a r2a h3 r1b r2b h4 \<Longrightarrow>
      P (BVHNode mn1 mx1 ts1 l1 r1 c1) (BVHNode mn2 mx2 ts2 l2 r2 c2) h
        (BVHNode mn1 mx1 ts1 l1b r1b True) (BVHNode mn2 mx2 ts2 l2b r2b True) h4"
  shows "P a b h a' b' h'"
  using assms(1)
proof (induction "size a + size b" arbitrary: a b h a' b' h' rule: less_induct)
  case less
  note eq = less.prems
  note R = assms(2-6)
  from eq obtain mn1 mx1 ts1 l1 r1 c1 where a: "a = BVHNode mn1 mx1 ts1 l1 r1 c1"
    by (cases a) auto
  from eq a obtain mn2 mx2 ts2 l2 r2 c2 where b: "b = BVHNode mn2 mx2 ts2 l2 r2 c2"
    by (cases b) auto
  show ?case
  proof (cases "separated a M b N")
    case True
    with eq R(1) [of mn1 mx1 ts1 l1 r1 c1 mn2 mx2 ts2 l2 r2 c2 h] show ?thesis
      unfolding a b by (simp add: test_collision_separated)
  next
    case sep: False
    consider (leaves) "l1 = Null" "l2 = Null" | (first_leaf) "l1 = Null" "l2 \<noteq> Null"
      | (second_leaf) "l1 \<noteq> Null" "l2 = Null" | (inner) "l1 \<noteq> Null" "l2 \<noteq> Null"
      by blast
    then show ?thesis
    proof cases
      case leaves
      with sep eq R(2) [of mn1 mx1 ts1 r1 c1 mn2 mx2 ts2 r2 c2 h] show ?thesis
        unfolding a b by (simp add: test_collision_leaves)
    next
      case first_leaf
      with sep eq obtain a1 l2a h1 r2a where
        s1: "test_collision tti (BVHNode mn1 mx1 ts1 Null r1 True) M l2 N h = Some (a1, l2a, h1)" and
        s2: "test_collision tti a1 M r2 N h1 = Some (a', r2a, h')" and
        b': "b' = BVHNode mn2 mx2 ts2 l2a r2a True"
        unfolding a b by (auto simp: test_collision_first_leaf split: bind_splits)
      have sep': "\<not> separated (BVHNode mn1 mx1 ts1 Null r1 c1) M (BVHNode mn2 mx2 ts2 l2 r2 c2) N"
        using sep first_leaf a b by simp
      have sz: "size a1 = size a" using test_collision_size [OF s1] a first_leaf by simp
      have p1: "P (BVHNode mn1 mx1 ts1 Null r1 True) l2 h a1 l2a h1"
        by (rule less.hyps [OF _ s1]) (simp add: a b first_leaf)
      have p2: "P a1 r2 h1 a' r2a h'"
        by (rule less.hyps [OF _ s2]) (simp add: sz b)
      from R(3) [OF sep' first_leaf(2) s1 s2 p1 p2] first_leaf a b b' show ?thesis by simp
    next
      case second_leaf
      with sep eq obtain l1a b1 h1 r1a where
        s1: "test_collision tti l1 M (BVHNode mn2 mx2 ts2 Null r2 True) N h = Some (l1a, b1, h1)" and
        s2: "test_collision tti r1 M b1 N h1 = Some (r1a, b', h')" and
        a': "a' = BVHNode mn1 mx1 ts1 l1a r1a True"
        unfolding a b by (auto simp: test_collision_second_leaf split: bind_splits)
      have sep': "\<not> separated (BVHNode mn1 mx1 ts1 l1 r1 c1) M (BVHNode mn2 mx2 ts2 Null r2 c2) N"
        using sep second_leaf a b by simp
      have sz: "size b1 = size b" using test_collision_size [OF s1] b second_leaf by simp
      have p1: "P l1 (BVHNode mn2 mx2 ts2 Null r2 True) h l1a b1 h1"
        by (rule less.hyps [OF _ s1]) (simp add: a b second_leaf)
      have p2: "P r1 b1 h1 r1a b' h'"
        by (rule less.hyps [OF _ s2]) (simp add: sz a)
      from R(4) [OF sep' second_leaf(1) s1 s2 p1 p2] second_leaf a b a' show ?thesis by simp
    next
      case inner
      with sep eq obtain l1a l2a h1 l1b r2a h2 r1a l2b h3 r1b r2b where
        s1: "test_collision tti l1 M l2 N h = Some (l1a, l2a, h1)" and
        s2: "test_collision tti l1a M r2 N h1 = Some (l1b, r2a, h2)" and
        s3: "test_collision tti r1 M l2a N h2 = Some (r1a, l2b, h3)" and
        s4: "test_collision tti r1a M r2a N h3 = Some (r1b, r2b, h')" and
        a': "a' = BVHNode mn1 mx1 ts1 l1b r1b True" and
        b': "b' = BVHNode mn2 mx2 ts2 l2b r2b True"
        unfolding a b by (auto simp: test_collision_inner split: bind_splits)
      have sep': "\<not> separated (BVHNode mn1 mx1 ts1 l1 r1 c1) M (BVHNode mn2 mx2 ts2 l2 r2 c2) N"
        using sep a b by simp
      note z1 = test_collision_size [OF s1] and z2 = test_collision_size [OF s2]
        and z3 = test_collision_size [OF s3]
      have p1: "P l1 l2 h l1a l2a h1"
        by (rule less.hyps [OF _ s1]) (simp add: a b)
      have p2: "P l1a r2 h1 l1b r2a h2"
        by (rule less.hyps [OF _ s2]) (simp add: a b z1)
      have p3: "P r1 l2a h2 r1a l2b h3"
        by (rule less.hyps [OF _ s3]) (simp add: a b z1)
      have p4: "P r1a r2a h3 r1b r2b h'"
        by (rule less.hyps [OF _ s4]) (simp add: a b z2 z3)
      from R(5) [OF sep' inner s1 s2 s3 s4 p1 p2 p3 p4] a b a' b' show ?thesis by simp
    qed
  qed
qed

subsection \<open>Order on flags\<close>

lemma flags_le_refl [simp]: "flags_le a a"
  by (induction a) auto

lemma flags_le_trans: "flags_le a b \<Longrightarrow> flags_le b c \<Longrightarrow> flags_le a c"
proof (induction a b arbitrary: c rule: flags_le.induct)
  case (2 mn mx ts l r c mn' mx' ts' l' r' c')
  then show ?case by (cases c) auto
qed auto

lemma flags_le_Node:
  "flags_le (BVHNode mn mx ts l r c) x \<longleftrightarrow>
     (\<exists>l' r' c'. x = BVHNode mn mx ts l' r' c' \<and> (c \<longrightarrow> c') \<and> flags_le l l' \<and> flags_le r r')"
  by (cases x) auto

lemma flags_le_Null [simp]: "flags_le Null x \<longleftrightarrow> x = Null"
  by (cases x) auto

lemma flags_le_Null_right [simp]: "flags_le x Null \<longleftrightarrow> x = Null"
  by (cases x) auto

lemma heap_le_refl [simp]: "heap_le h h"
  by (simp add: heap_le_def)

lemma heap_le_trans: "heap_le h h' \<Longrightarrow> heap_le h' h'' \<Longrightarrow> heap_le h h''"
  by (simp add: heap_le_def)

lemma heap_le_raise_flags [simp]: "heap_le h (raise_flags S h)"
  by (simp add: heap_le_def raise_flags_def)

subsection \<open>The loop over the triangle pairs\<close>

lemma raise_flags_empty [simp]: "raise_flags {} h = h"
  by (simp add: raise_flags_def)

lemma mark_triangle_raise: "mark_triangle p (raise_flags S h) = raise_flags (insert p S) h"
  by (rule ext) (simp add: mark_triangle_def raise_flags_def)

lemma flag_blind_raise:
  "flag_blind tti \<Longrightarrow> tti (raise_flags S h p) M (raise_flags S h q) N = tti (h p) M (h q) N"
proof -
  assume fb: "flag_blind tti"
  have "raise_flags S h p = (h p)\<lparr>collision := collision (raise_flags S h p)\<rparr>"
    "raise_flags S h q = (h q)\<lparr>collision := collision (raise_flags S h q)\<rparr>"
    by (simp_all add: raise_flags_def)
  then show ?thesis using fb unfolding flag_blind_def by metis
qed

lemma test_pair_raise:
  "flag_blind tti \<Longrightarrow> test_pair tti M N i j (raise_flags S h) =
     raise_flags (S \<union> (if tti (h i) M (h j) N then {i, j} else {})) h"
  by (simp add: test_pair_def flag_blind_raise mark_triangle_raise insert_commute)

lemma inner_loop_raise:
  "flag_blind tti \<Longrightarrow> fold (test_pair tti M N i) ts2 (raise_flags S h) =
     raise_flags (S \<union> {p. p = i \<and> (\<exists>q \<in> set ts2. tti (h i) M (h q) N)}
                    \<union> {q \<in> set ts2. tti (h i) M (h q) N}) h"
proof (induction ts2 arbitrary: S)
  case Nil
  then show ?case by simp
next
  case (Cons j ts2)
  have "fold (test_pair tti M N i) (j # ts2) (raise_flags S h) =
      fold (test_pair tti M N i) ts2
        (raise_flags (S \<union> (if tti (h i) M (h j) N then {i, j} else {})) h)"
    by (simp add: test_pair_raise [OF Cons.prems])
  also have "\<dots> = raise_flags ((S \<union> (if tti (h i) M (h j) N then {i, j} else {}))
                    \<union> {p. p = i \<and> (\<exists>q \<in> set ts2. tti (h i) M (h q) N)}
                    \<union> {q \<in> set ts2. tti (h i) M (h q) N}) h"
    by (rule Cons.IH [OF Cons.prems])
  also have "(S \<union> (if tti (h i) M (h j) N then {i, j} else {}))
                    \<union> {p. p = i \<and> (\<exists>q \<in> set ts2. tti (h i) M (h q) N)}
                    \<union> {q \<in> set ts2. tti (h i) M (h q) N}
      = S \<union> {p. p = i \<and> (\<exists>q \<in> set (j # ts2). tti (h i) M (h q) N)}
                    \<union> {q \<in> set (j # ts2). tti (h i) M (h q) N}"
    by auto
  finally show ?case .
qed

lemma outer_loop_raise:
  "flag_blind tti \<Longrightarrow>
   fold (\<lambda>ti. fold (test_pair tti M N ti) ts2) ts1 (raise_flags S h) =
     raise_flags (S \<union> hits tti h ts1 M ts2 N) h"
proof (induction ts1 arbitrary: S)
  case Nil
  then show ?case by (simp add: hits_def)
next
  case (Cons i ts1)
  let ?S1 = "S \<union> {p. p = i \<and> (\<exists>q \<in> set ts2. tti (h i) M (h q) N)}
                    \<union> {q \<in> set ts2. tti (h i) M (h q) N}"
  have "fold (\<lambda>ti. fold (test_pair tti M N ti) ts2) (i # ts1) (raise_flags S h) =
      fold (\<lambda>ti. fold (test_pair tti M N ti) ts2) ts1 (raise_flags ?S1 h)"
    by (simp add: inner_loop_raise [OF Cons.prems])
  also have "\<dots> = raise_flags (?S1 \<union> hits tti h ts1 M ts2 N) h"
    by (rule Cons.IH [OF Cons.prems])
  also have "?S1 \<union> hits tti h ts1 M ts2 N = S \<union> hits tti h (i # ts1) M ts2 N"
    by (auto simp: hits_def)
  finally show ?case .
qed

lemma check_triangles_hits:
  "flag_blind tti \<Longrightarrow>
   check_triangles tti ts1 M ts2 N h = raise_flags (hits tti h ts1 M ts2 N) h"
  using outer_loop_raise [of tti M N ts2 ts1 "{}" h] by (simp add: check_triangles_def)

lemma heap_le_mark_triangle: "heap_le h (mark_triangle p h)"
  by (simp add: heap_le_def mark_triangle_def)

lemma heap_le_test_pair: "heap_le h (test_pair tti M N i j h)"
  by (auto simp: test_pair_def intro: heap_le_trans heap_le_mark_triangle)

lemma heap_le_fold:
  assumes "\<And>x h. heap_le h (f x h)"
  shows "heap_le h (fold f xs h)"
proof (induction xs arbitrary: h)
  case Nil
  show ?case by simp
next
  case (Cons x xs)
  have "heap_le h (f x h)" by (rule assms)
  moreover have "heap_le (f x h) (fold f xs (f x h))" by (rule Cons.IH)
  ultimately show ?case by (auto intro: heap_le_trans)
qed

lemma heap_le_check_triangles: "heap_le h (check_triangles tti ts1 M ts2 N h)"
  unfolding check_triangles_def
  by (intro heap_le_fold heap_le_test_pair)

subsection \<open>Flags only go up\<close>

lemma test_collision_flags_le:
  assumes "test_collision tti a M b N h = Some (a', b', h')"
  shows "flags_le a a' \<and> flags_le b b' \<and> heap_le h h'"
  using assms
proof (induction rule: test_collision_result_induct)
  case (separated mn1 mx1 ts1 l1 r1 c1 mn2 mx2 ts2 l2 r2 c2 h)
  show ?case by simp
next
  case (leaves mn1 mx1 ts1 r1 c1 mn2 mx2 ts2 r2 c2 h)
  show ?case by (simp add: heap_le_check_triangles)
next
  case (first_leaf mn1 mx1 ts1 r1 c1 mn2 mx2 ts2 l2 r2 c2 h a1 l2a h1 a2 r2a h2)
  have "flags_le (BVHNode mn1 mx1 ts1 Null r1 c1) (BVHNode mn1 mx1 ts1 Null r1 True)" by simp
  with first_leaf(5,6) have "flags_le (BVHNode mn1 mx1 ts1 Null r1 c1) a2"
    by (blast intro: flags_le_trans)
  moreover from first_leaf(5,6) have "heap_le h h2" by (blast intro: heap_le_trans)
  ultimately show ?case using first_leaf(5,6) by simp
next
  case (second_leaf mn1 mx1 ts1 l1 r1 c1 mn2 mx2 ts2 r2 c2 h l1a b1 h1 r1a b2 h2)
  have "flags_le (BVHNode mn2 mx2 ts2 Null r2 c2) (BVHNode mn2 mx2 ts2 Null r2 True)" by simp
  with second_leaf(5,6) have "flags_le (BVHNode mn2 mx2 ts2 Null r2 c2) b2"
    by (blast intro: flags_le_trans)
  moreover from second_leaf(5,6) have "heap_le h h2" by (blast intro: heap_le_trans)
  ultimately show ?case using second_leaf(5,6) by simp
next
  case (inner mn1 mx1 ts1 l1 r1 c1 mn2 mx2 ts2 l2 r2 c2 h l1a l2a h1 l1b r2a h2 r1a l2b h3 r1b r2b h4)
  from inner(8-11) have "flags_le l1 l1b" "flags_le r1 r1b" "flags_le l2 l2b" "flags_le r2 r2b"
    "heap_le h h4"
    by (blast intro: flags_le_trans heap_le_trans)+
  then show ?case by simp
qed

subsection \<open>A second run changes nothing\<close>

lemma separated_boxes:
  "get_min a' = get_min a \<Longrightarrow> get_max a' = get_max a \<Longrightarrow> get_min b' = get_min b \<Longrightarrow>
   get_max b' = get_max b \<Longrightarrow> separated a' M b' N = separated a M b N"
  by (simp add: separated_def)

lemma flag_blind_geometry:
  assumes "flag_blind tti"
    and "v1 t' = v1 t" "v2 t' = v2 t" "v3 t' = v3 t"
    and "v1 u' = v1 u" "v2 u' = v2 u" "v3 u' = v3 u"
  shows "tti t' M u' N = tti t M u N"
proof -
  have "t' = t\<lparr>collision := collision t'\<rparr>" "u' = u\<lparr>collision := collision u'\<rparr>"
    using assms(2-7) by simp_all
  then show ?thesis using assms(1) unfolding flag_blind_def by metis
qed

lemma hits_heap_le:
  assumes "flag_blind tti" and "heap_le h h'"
  shows "hits tti h' ts1 M ts2 N = hits tti h ts1 M ts2 N"
proof -
  have "tti (h' p) M (h' q) N = tti (h p) M (h q) N" for p q
    using assms(2) by (intro flag_blind_geometry [OF assms(1)]) (simp_all add: heap_le_def)
  then show ?thesis by (simp add: hits_def)
qed

lemma check_triangles_absorb:
  assumes "flag_blind tti" and "heap_le (check_triangles tti ts1 M ts2 N h) h'"
  shows "check_triangles tti ts1 M ts2 N h' = h'"
proof -
  let ?H = "hits tti h ts1 M ts2 N"
  from assms have le: "heap_le (raise_flags ?H h) h'" by (simp add: check_triangles_hits)
  have "heap_le h (raise_flags ?H h)" by simp
  then have "heap_le h h'" using le by (rule heap_le_trans)
  then have H: "hits tti h' ts1 M ts2 N = ?H" by (rule hits_heap_le [OF assms(1)])
  have set: "collision (h' p)" if "p \<in> ?H" for p
    using le that by (auto simp: heap_le_def raise_flags_def)
  have "raise_flags ?H h' = h'"
    by (rule ext) (simp add: raise_flags_def set)
  with H show ?thesis by (simp add: check_triangles_hits [OF assms(1)])
qed

lemma test_collision_absorb:
  assumes fb: "flag_blind tti" and "test_collision tti a M b N h = Some (a', b', h')"
  shows "flags_le a' a'' \<Longrightarrow> flags_le b' b'' \<Longrightarrow> heap_le h' h''
    \<Longrightarrow> test_collision tti a'' M b'' N h'' = Some (a'', b'', h'')"
  using assms(2)
proof (induction arbitrary: a'' b'' h'' rule: test_collision_result_induct)
  case (separated mn1 mx1 ts1 l1 r1 c1 mn2 mx2 ts2 l2 r2 c2 h)
  from separated(2,3) obtain l1' r1' c1' l2' r2' c2' where
    a: "a'' = BVHNode mn1 mx1 ts1 l1' r1' c1'" and b: "b'' = BVHNode mn2 mx2 ts2 l2' r2' c2'"
    by (auto simp: flags_le_Node)
  have "separated a'' M b'' N"
    using separated(1) unfolding a b by (simp add: separated_def)
  then show ?case unfolding a b by (rule test_collision_separated)
next
  case (leaves mn1 mx1 ts1 r1 c1 mn2 mx2 ts2 r2 c2 h)
  from leaves(2,3) obtain r1' r2' where
    a: "a'' = BVHNode mn1 mx1 ts1 Null r1' True" and b: "b'' = BVHNode mn2 mx2 ts2 Null r2' True"
    by (auto simp: flags_le_Node)
  have sep: "\<not> separated a'' M b'' N"
    using leaves(1) unfolding a b by (simp add: separated_def)
  have "check_triangles tti ts1 M ts2 N h'' = h''"
    using fb leaves(4) by (rule check_triangles_absorb)
  with sep show ?case unfolding a b by (simp add: test_collision_leaves)
next
  case (first_leaf mn1 mx1 ts1 r1 c1 mn2 mx2 ts2 l2 r2 c2 h a1 l2a h1 a2 r2a h2)
  note m1 = test_collision_flags_le [OF first_leaf(3)]
    and m2 = test_collision_flags_le [OF first_leaf(4)]
  from first_leaf(8) obtain l2' r2' where
    b: "b'' = BVHNode mn2 mx2 ts2 l2' r2' True" and l2': "flags_le l2a l2'" and r2': "flags_le r2a r2'"
    by (auto simp: flags_le_Node)
  have "flags_le (BVHNode mn1 mx1 ts1 Null r1 True) a''"
    using m1 m2 first_leaf(7) by (blast intro: flags_le_trans)
  then obtain r1' where a: "a'' = BVHNode mn1 mx1 ts1 Null r1' True"
    by (auto simp: flags_le_Node)
  have sep: "\<not> separated (BVHNode mn1 mx1 ts1 Null r1' True) M (BVHNode mn2 mx2 ts2 l2' r2' True) N"
    using first_leaf(1) by (simp add: separated_def)
  have ne: "l2' \<noteq> Null"
    using first_leaf(2) m1 l2' by (cases l2; cases l2a; cases l2') auto
  have c1: "test_collision tti a'' M l2' N h'' = Some (a'', l2', h'')"
    using m2 first_leaf(7,9) l2' by (intro first_leaf(5)) (blast intro: flags_le_trans heap_le_trans)+
  have c2: "test_collision tti a'' M r2' N h'' = Some (a'', r2', h'')"
    using first_leaf(7,9) r2' by (intro first_leaf(6))
  show ?case
    using c1 c2 unfolding b a test_collision_first_leaf [OF sep ne] by simp
next
  case (second_leaf mn1 mx1 ts1 l1 r1 c1 mn2 mx2 ts2 r2 c2 h l1a b1 h1 r1a b2 h2)
  note m1 = test_collision_flags_le [OF second_leaf(3)]
    and m2 = test_collision_flags_le [OF second_leaf(4)]
  from second_leaf(7) obtain l1' r1' where
    a: "a'' = BVHNode mn1 mx1 ts1 l1' r1' True" and l1': "flags_le l1a l1'" and r1': "flags_le r1a r1'"
    by (auto simp: flags_le_Node)
  have "flags_le (BVHNode mn2 mx2 ts2 Null r2 True) b''"
    using m1 m2 second_leaf(8) by (blast intro: flags_le_trans)
  then obtain r2' where b: "b'' = BVHNode mn2 mx2 ts2 Null r2' True"
    by (auto simp: flags_le_Node)
  have sep: "\<not> separated (BVHNode mn1 mx1 ts1 l1' r1' True) M (BVHNode mn2 mx2 ts2 Null r2' True) N"
    using second_leaf(1) by (simp add: separated_def)
  have ne: "l1' \<noteq> Null"
    using second_leaf(2) m1 l1' by (cases l1; cases l1a; cases l1') auto
  have c1: "test_collision tti l1' M b'' N h'' = Some (l1', b'', h'')"
    using m2 second_leaf(8,9) l1' by (intro second_leaf(5)) (blast intro: flags_le_trans heap_le_trans)+
  have c2: "test_collision tti r1' M b'' N h'' = Some (r1', b'', h'')"
    using second_leaf(8,9) r1' by (intro second_leaf(6))
  show ?case
    using c1 c2 unfolding b a test_collision_second_leaf [OF sep ne] by simp
next
  case (inner mn1 mx1 ts1 l1 r1 c1 mn2 mx2 ts2 l2 r2 c2 h l1a l2a h1 l1b r2a h2 r1a l2b h3 r1b r2b h4)
  note m1 = test_collision_flags_le [OF inner(4)]
    and m2 = test_collision_flags_le [OF inner(5)]
    and m3 = test_collision_flags_le [OF inner(6)]
    and m4 = test_collision_flags_le [OF inner(7)]
  from inner(12) obtain l1' r1' where
    a: "a'' = BVHNode mn1 mx1 ts1 l1' r1' True" and l1': "flags_le l1b l1'" and r1': "flags_le r1b r1'"
    by (auto simp: flags_le_Node)
  from inner(13) obtain l2' r2' where
    b: "b'' = BVHNode mn2 mx2 ts2 l2' r2' True" and l2': "flags_le l2b l2'" and r2': "flags_le r2b r2'"
    by (auto simp: flags_le_Node)
  have sep: "\<not> separated (BVHNode mn1 mx1 ts1 l1' r1' True) M (BVHNode mn2 mx2 ts2 l2' r2' True) N"
    using inner(1) by (simp add: separated_def)
  have ne1: "l1' \<noteq> Null"
    using inner(2) m1 m2 l1' by (cases l1; cases l1a; cases l1b; cases l1') auto
  have ne2: "l2' \<noteq> Null"
    using inner(3) m1 m3 l2' by (cases l2; cases l2a; cases l2b; cases l2') auto
  have le: "flags_le l1a l1'" "flags_le l2a l2'" "flags_le r1a r1'" "flags_le r2a r2'"
    "heap_le h1 h''" "heap_le h2 h''" "heap_le h3 h''"
    using m2 m3 m4 l1' l2' r1' r2' inner(14) by (blast intro: flags_le_trans heap_le_trans)+
  have c1: "test_collision tti l1' M l2' N h'' = Some (l1', l2', h'')"
    using le by (intro inner(8))
  have c2: "test_collision tti l1' M r2' N h'' = Some (l1', r2', h'')"
    using le l1' by (intro inner(9))
  have c3: "test_collision tti r1' M l2' N h'' = Some (r1', l2', h'')"
    using le l2' by (intro inner(10))
  have c4: "test_collision tti r1' M r2' N h'' = Some (r1', r2', h'')"
    using r1' r2' inner(14) by (intro inner(11))
  show ?case
    using c1 c2 c3 c4 unfolding b a test_collision_inner [OF sep ne1 ne2] by simp
qed

subsection \<open>Trees with paired children\<close>

lemma flags_le_paired: "flags_le a a' \<Longrightarrow> paired a \<Longrightarrow> paired a'"
  by (induction a a' rule: flags_le.induct) auto

lemma flags_le_not_Null: "flags_le a a' \<Longrightarrow> a \<noteq> Null \<Longrightarrow> a' \<noteq> Null"
  by (cases a; cases a') auto

lemma test_collision_total:
  "a \<noteq> Null \<Longrightarrow> b \<noteq> Null \<Longrightarrow> paired a \<Longrightarrow> paired b
     \<Longrightarrow> \<exists>a' b' h'. test_collision tti a M b N h = Some (a', b', h')"
proof (induction "size a + size b" arbitrary: a b h rule: less_induct)
  case less
  from less.prems obtain mn1 mx1 ts1 l1 r1 c1 mn2 mx2 ts2 l2 r2 c2 where
    a: "a = BVHNode mn1 mx1 ts1 l1 r1 c1" and b: "b = BVHNode mn2 mx2 ts2 l2 r2 c2"
    by (cases a; cases b) auto
  show ?case
  proof (cases "separated a M b N")
    case True
    then show ?thesis unfolding a b by (simp add: test_collision_separated)
  next
    case sep: False
    consider (leaves) "l1 = Null" "l2 = Null" | (first_leaf) "l1 = Null" "l2 \<noteq> Null"
      | (second_leaf) "l1 \<noteq> Null" "l2 = Null" | (inner) "l1 \<noteq> Null" "l2 \<noteq> Null"
      by blast
    then show ?thesis
    proof cases
      case leaves
      with sep show ?thesis unfolding a b by (simp add: test_collision_leaves)
    next
      case first_leaf
      let ?A = "BVHNode mn1 mx1 ts1 Null r1 True"
      from less.prems first_leaf have p: "paired ?A" "paired l2" "paired r2" "r2 \<noteq> Null"
        unfolding a b by auto
      have "\<exists>a' b' h'. test_collision tti ?A M l2 N h = Some (a', b', h')"
        using first_leaf p by (intro less.hyps) (simp_all add: a b)
      then obtain a1 l2a h1 where
        s1: "test_collision tti ?A M l2 N h = Some (a1, l2a, h1)" by blast
      note m1 = test_collision_flags_le [OF s1] and z1 = test_collision_size [OF s1]
      have "\<exists>a' b' h'. test_collision tti a1 M r2 N h1 = Some (a', b', h')"
      proof (intro less.hyps)
        show "size a1 + size r2 < size a + size b" using z1 by (simp add: a b first_leaf)
        show "a1 \<noteq> Null" using m1 by (auto dest: flags_le_not_Null)
        show "paired a1" using m1 p by (blast intro: flags_le_paired)
      qed (use p in simp_all)
      then obtain a2 r2a h2 where
        s2: "test_collision tti a1 M r2 N h1 = Some (a2, r2a, h2)" by blast
      from sep first_leaf s1 s2 show ?thesis
        unfolding a b by (simp add: test_collision_first_leaf)
    next
      case second_leaf
      let ?B = "BVHNode mn2 mx2 ts2 Null r2 True"
      from less.prems second_leaf have p: "paired ?B" "paired l1" "paired r1" "r1 \<noteq> Null"
        unfolding a b by auto
      have "\<exists>a' b' h'. test_collision tti l1 M ?B N h = Some (a', b', h')"
        using second_leaf p by (intro less.hyps) (simp_all add: a b)
      then obtain l1a b1 h1 where
        s1: "test_collision tti l1 M ?B N h = Some (l1a, b1, h1)" by blast
      note m1 = test_collision_flags_le [OF s1] and z1 = test_collision_size [OF s1]
      have "\<exists>a' b' h'. test_collision tti r1 M b1 N h1 = Some (a', b', h')"
      proof (intro less.hyps)
        show "size r1 + size b1 < size a + size b" using z1 by (simp add: a b second_leaf)
        show "b1 \<noteq> Null" using m1 by (auto dest: flags_le_not_Null)
        show "paired b1" using m1 p by (blast intro: flags_le_paired)
      qed (use p in simp_all)
      then obtain r1a b2 h2 where
        s2: "test_collision tti r1 M b1 N h1 = Some (r1a, b2, h2)" by blast
      from sep second_leaf s1 s2 show ?thesis
        unfolding a b by (simp add: test_collision_second_leaf)
    next
      case inner
      from less.prems inner have p: "paired l1" "paired r1" "paired l2" "paired r2"
        "r1 \<noteq> Null" "r2 \<noteq> Null"
        unfolding a b by auto
      have "\<exists>a' b' h'. test_collision tti l1 M l2 N h = Some (a', b', h')"
        using inner p by (intro less.hyps) (simp_all add: a b)
      then obtain l1a l2a h1 where
        s1: "test_collision tti l1 M l2 N h = Some (l1a, l2a, h1)" by blast
      note m1 = test_collision_flags_le [OF s1] and z1 = test_collision_size [OF s1]
      have "\<exists>a' b' h'. test_collision tti l1a M r2 N h1 = Some (a', b', h')"
      proof (intro less.hyps)
        show "size l1a + size r2 < size a + size b" using z1 by (simp add: a b)
        show "l1a \<noteq> Null" using m1 inner by (auto dest: flags_le_not_Null)
        show "paired l1a" using m1 p by (blast intro: flags_le_paired)
      qed (use p in simp_all)
      then obtain l1b r2a h2 where
        s2: "test_collision tti l1a M r2 N h1 = Some (l1b, r2a, h2)" by blast
      note m2 = test_collision_flags_le [OF s2] and z2 = test_collision_size [OF s2]
      have "\<exists>a' b' h'. test_collision tti r1 M l2a N h2 = Some (a', b', h')"
      proof (intro less.hyps)
        show "size r1 + size l2a < size a + size b" using z1 by (simp add: a b)
        show "l2a \<noteq> Null" using m1 inner by (auto dest: flags_le_not_Null)
        show "paired l2a" using m1 p by (blast intro: flags_le_paired)
      qed (use p in simp_all)
      then obtain r1a l2b h3 where
        s3: "test_collision tti r1 M l2a N h2 = Some (r1a, l2b, h3)" by blast
      note m3 = test_collision_flags_le [OF s3] and z3 = test_collision_size [OF s3]
      have "\<exists>a' b' h'. test_collision tti r1a M r2a N h3 = Some (a', b', h')"
      proof (intro less.hyps)
        show "size r1a + size r2a < size a + size b" using z2 z3 by (simp add: a b)
        show "r1a \<noteq> Null" using m3 p by (auto dest: flags_le_not_Null)
        show "r2a \<noteq> Null" using m2 p by (auto dest: flags_le_not_Null)
        show "paired r1a" using m3 p by (blast intro: flags_le_paired)
        show "paired r2a" using m2 p by (blast intro: flags_le_paired)
      qed
      then obtain r1b r2b h4 where
        s4: "test_collision tti r1a M r2a N h3 = Some (r1b, r2b, h4)" by blast
      from sep inner s1 s2 s3 s4 show ?thesis
        unfolding a b by (simp add: test_collision_inner)
    qed
  qed
qed

lemma construct_paired:
  "construct d h ts md m = Some t \<Longrightarrow> paired t"
proof (induction "length ts" arbitrary: ts md t rule: less_induct)
  case less
  from less.prems show ?case
  proof (cases rule: construct_Some_cases)
    case (leaf t0 rest)
    then show ?thesis by simp
  next
    case (inner t0 rest lt rt mdl mdr)
    from inner(1-3) have short:
      "length (fst (subsets h t0 ts)) < length ts" "length (snd (subsets h t0 ts)) < length ts"
      using subsets_left_shorter [of "fst (subsets h t0 ts)" "snd (subsets h t0 ts)" h t0 ts]
            subsets_right_shorter [of "fst (subsets h t0 ts)" "snd (subsets h t0 ts)" h t0 ts]
      by auto
    from less.hyps [OF short(1) inner(5)] less.hyps [OF short(2) inner(6)]
      construct_not_Null [OF inner(5)] construct_not_Null [OF inner(6)] inner(7)
    show ?thesis by simp
  qed
qed

subsection \<open>The flags of the two roots\<close>

lemma check_triangles_no_hit:
  "\<forall>t u. \<not> tti t M u N \<Longrightarrow> check_triangles tti ts1 M ts2 N h = h"
proof -
  assume no: "\<forall>t u. \<not> tti t M u N"
  then have "test_pair tti M N i j = id" for i j
    by (rule_tac ext) (simp add: test_pair_def)
  then have "fold (test_pair tti M N i) ts2 = id" for i
    by (induction ts2) simp_all
  then have "fold (\<lambda>ti. fold (test_pair tti M N ti) ts2) ts1 = id"
    by (induction ts1) simp_all
  then show ?thesis by (simp add: check_triangles_def)
qed

lemma test_collision_no_hit:
  assumes "test_collision tti a M b N h = Some (a', b', h')" and "\<forall>t u. \<not> tti t M u N"
  shows "h' = h"
  using assms(1)
proof (induction rule: test_collision_result_induct)
  case (leaves mn1 mx1 ts1 r1 c1 mn2 mx2 ts2 r2 c2 h)
  show ?case using assms(2) by (rule check_triangles_no_hit)
qed simp_all

lemma test_collision_root_flags:
  assumes "test_collision tti a M b N h = Some (a', b', h')" and "\<not> separated a M b N"
  shows "node_collision a' \<and> node_collision b'"
proof -
  from assms(1) obtain mn1 mx1 ts1 l1 r1 c1 mn2 mx2 ts2 l2 r2 c2 where
    a: "a = BVHNode mn1 mx1 ts1 l1 r1 c1" and b: "b = BVHNode mn2 mx2 ts2 l2 r2 c2"
    by (cases a; cases b) auto
  note eq = assms(1) [unfolded a b] and sep = assms(2) [unfolded a b]
  consider (leaves) "l1 = Null" "l2 = Null" | (first_leaf) "l1 = Null" "l2 \<noteq> Null"
    | (second_leaf) "l1 \<noteq> Null" "l2 = Null" | (inner) "l1 \<noteq> Null" "l2 \<noteq> Null"
    by blast
  then show ?thesis
  proof cases
    case leaves
    with sep eq show ?thesis by (auto simp: test_collision_leaves)
  next
    case first_leaf
    with sep eq obtain a1 l2a h1 r2a where
      s1: "test_collision tti (BVHNode mn1 mx1 ts1 Null r1 True) M l2 N h = Some (a1, l2a, h1)" and
      s2: "test_collision tti a1 M r2 N h1 = Some (a', r2a, h')" and
      b': "b' = BVHNode mn2 mx2 ts2 l2a r2a True"
      by (auto simp: test_collision_first_leaf split: bind_splits)
    from test_collision_flags_le [OF s1] test_collision_flags_le [OF s2]
    have "flags_le (BVHNode mn1 mx1 ts1 Null r1 True) a'" by (blast intro: flags_le_trans)
    with b' show ?thesis by (auto simp: flags_le_Node)
  next
    case second_leaf
    with sep eq obtain l1a b1 h1 r1a where
      s1: "test_collision tti l1 M (BVHNode mn2 mx2 ts2 Null r2 True) N h = Some (l1a, b1, h1)" and
      s2: "test_collision tti r1 M b1 N h1 = Some (r1a, b', h')" and
      a': "a' = BVHNode mn1 mx1 ts1 l1a r1a True"
      by (auto simp: test_collision_second_leaf split: bind_splits)
    from test_collision_flags_le [OF s1] test_collision_flags_le [OF s2]
    have "flags_le (BVHNode mn2 mx2 ts2 Null r2 True) b'" by (blast intro: flags_le_trans)
    with a' show ?thesis by (auto simp: flags_le_Node)
  next
    case inner
    with sep eq show ?thesis
      by (auto simp: test_collision_inner split: bind_splits)
  qed
qed

subsection \<open>The tester on the example trees\<close>

lemma example_boxes:
  "separated (BVHNode (point 0 0 0) (point 1 1 0) ts l r c) identity
             (BVHNode (point 10 0 0) (point 11 1 0) ts' l' r' c') identity"
  "separated (BVHNode (point 10 0 0) (point 11 1 0) ts l r c) identity
             (BVHNode (point 0 0 0) (point 1 1 0) ts' l' r' c') identity"
  "\<not> separated (BVHNode (point 0 0 0) (point 1 1 0) ts l r c) identity
               (BVHNode (point 0 0 0) (point 1 1 0) ts' l' r' c') identity"
  "\<not> separated (BVHNode (point 10 0 0) (point 11 1 0) ts l r c) identity
               (BVHNode (point 10 0 0) (point 11 1 0) ts' l' r' c') identity"
  "\<not> separated (BVHNode (point 0 0 0) (point 11 1 0) ts l r c) identity
               (BVHNode (point 0 0 0) (point 11 1 0) ts' l' r' c') identity"
  by (simp_all add: separated_def mat_mul_def identity_def point_def)

lemma flag_blind_const: "flag_blind (\<lambda>t M u N. c)"
  by (simp add: flag_blind_def)

lemma example_no_hit:
  "test_collision (\<lambda>t M u N. False) split_tree identity split_tree identity two_triangles =
     Some (marked_tree, marked_tree, two_triangles)"
  by (simp add: split_tree_def left_leaf_def right_leaf_def marked_tree_def
        test_collision_inner test_collision_leaves test_collision_separated example_boxes
        check_triangles_no_hit)

lemma pair_leaves_overlap:
  "\<not> separated (BVHNode (point 10 0 0) (point 21 1 0) ts l r c) identity
               (BVHNode (point 30 0 0) (point 41 1 0) ts' l' r' c') (translate_x (- 20))"
  by (simp add: separated_def mat_mul_def identity_def translate_x_def point_def)

lemma example_flag_blind: "flag_blind last_pair_only" "flag_blind first_and_last_pair"
  by (simp_all add: flag_blind_def last_pair_only_def first_and_last_pair_def)

section \<open>Properties of the tree builder\<close>

text \<open>
  C1. With a new node reporting a depth above 0, as the spec has it, \<open>construct\<close> called on
  a non-empty list with \<open>max_depth = 0\<close> returns a tree of exactly one node, the root, which
  is a leaf holding the whole list, for every \<open>min_triangles_for_split\<close>. For any
  \<open>max_depth\<close>, a node of the returned tree that is not a leaf has two non-empty candidate
  subsets and was built by a call whose depth budget was not used up: that budget is at least
  the depth of a new node and above 0, and so is \<open>max_depth\<close> itself.
\<close>

theorem construct_depth_budget:
  assumes "spec_fresh_depth fresh_depth"
  shows "(triangles \<noteq> [] \<longrightarrow>
           (\<exists>n. construct fresh_depth h triangles 0 m = Some n \<and> nodes n = [n] \<and> is_leaf n \<and>
                get_triangles n = triangles)) \<and>
         (\<forall>max_depth t n. construct fresh_depth h triangles max_depth m = Some t \<and>
              n \<in> set (nodes t) \<and> \<not> is_leaf n \<longrightarrow>
            fst (subsets h (hd (get_triangles n)) (get_triangles n)) \<noteq> [] \<and>
            snd (subsets h (hd (get_triangles n)) (get_triangles n)) \<noteq> [] \<and>
            (\<exists>md'. construct fresh_depth h (get_triangles n) md' m = Some n \<and>
                   fresh_depth \<le> md' \<and> 0 < md') \<and>
            0 < max_depth)"
proof (intro conjI impI allI)
  assume "triangles \<noteq> []"
  then obtain t0 rest where ts: "triangles = t0 # rest" by (cases triangles) auto
  have "construct fresh_depth h triangles 0 m =
      Some (BVHNode (fst (bounds h t0 triangles)) (snd (bounds h t0 triangles)) triangles Null Null False)"
    using assms unfolding ts spec_fresh_depth_def
    by (simp add: construct.simps Let_def split: prod.splits)
  then show "\<exists>n. construct fresh_depth h triangles 0 m = Some n \<and> nodes n = [n] \<and> is_leaf n \<and>
                get_triangles n = triangles"
    by (simp add: is_leaf_def)
next
  fix max_depth t n
  assume a: "construct fresh_depth h triangles max_depth m = Some t \<and>
              n \<in> set (nodes t) \<and> \<not> is_leaf n"
  then have c: "construct fresh_depth h triangles max_depth m = Some t"
    and n: "n \<in> set (nodes t)" and l: "\<not> is_leaf n" by simp_all
  from construct_node_budget [OF c n l] assms
  show "fst (subsets h (hd (get_triangles n)) (get_triangles n)) \<noteq> []"
    "snd (subsets h (hd (get_triangles n)) (get_triangles n)) \<noteq> []"
    "\<exists>md'. construct fresh_depth h (get_triangles n) md' m = Some n \<and> fresh_depth \<le> md' \<and> 0 < md'"
    by (auto simp: spec_fresh_depth_def)
  have "\<not> is_leaf t"
  proof
    assume "is_leaf t"
    with n l show False by (cases t) (auto simp: is_leaf_def)
  qed
  with c have "fresh_depth \<le> max_depth" by (rule construct_root_children)
  with assms show "0 < max_depth" by (simp add: spec_fresh_depth_def)
qed

theorem construct_depth_budget_witness:
  "spec_fresh_depth 1 \<and> [10::nat, 20] \<noteq> [] \<and>
   construct 1 two_triangles [10, 20] 0 1 = Some single_node \<and>
   nodes single_node = [single_node] \<and> is_leaf single_node \<and>
   construct 1 two_triangles [10, 20] 1 1 = Some split_tree \<and>
   split_tree \<in> set (nodes split_tree) \<and> \<not> is_leaf split_tree \<and>
   fst (subsets two_triangles 10 [10, 20]) \<noteq> [] \<and> snd (subsets two_triangles 10 [10, 20]) \<noteq> [] \<and>
   (0::int) < 1"
proof -
  have d: "spec_fresh_depth 1" by (simp add: spec_fresh_depth_def)
  have c: "construct 1 two_triangles [10, 20] 1 1 = Some split_tree"
    by (simp add: construct.simps two_triangles_bounds two_triangles_subsets size_ge_def
        split_tree_def left_leaf_def right_leaf_def)
  have n: "split_tree \<in> set (nodes split_tree)" "\<not> is_leaf split_tree"
    "get_triangles split_tree = [10, 20]"
    by (simp_all add: split_tree_def is_leaf_def left_leaf_def)
  note T = construct_depth_budget [OF d, of "[10, 20]" two_triangles 1]
  from T have "\<exists>n. construct 1 two_triangles [10, 20] 0 1 = Some n \<and> nodes n = [n] \<and> is_leaf n"
    by auto
  then have 1: "construct 1 two_triangles [10, 20] 0 1 = Some single_node"
    "nodes single_node = [single_node]" "is_leaf single_node"
    by (auto simp: two_triangles_construct)
  from T c n have "fst (subsets two_triangles 10 [10, 20]) \<noteq> []"
    "snd (subsets two_triangles 10 [10, 20]) \<noteq> []"
    by (auto simp: two_triangles_subsets)
  with d c n 1 show ?thesis by simp
qed

text \<open>
  C3. In a tree that \<open>construct\<close> returns, every node that is not a leaf has both
  children; their triangle lists are disjoint, together they hold exactly the triangles of
  the node, and no triangle is dropped or repeated.
\<close>

theorem construct_partition:
  assumes "construct fresh_depth h triangles max_depth m = Some t"
    and "n \<in> set (nodes t)" and "\<not> is_leaf n"
  shows "get_left n \<noteq> Null \<and> get_right n \<noteq> Null \<and>
         set (get_triangles (get_left n)) \<union> set (get_triangles (get_right n))
           = set (get_triangles n) \<and>
         set (get_triangles (get_left n)) \<inter> set (get_triangles (get_right n)) = {} \<and>
         length (get_triangles (get_left n)) + length (get_triangles (get_right n))
           = length (get_triangles n)"
proof -
  from construct_nodes [OF assms(1,2)] obtain ts' md' where
    c: "construct fresh_depth h ts' md' m = Some n" by blast
  from c assms(3) obtain t0 where
    ch: "get_left n \<noteq> Null" "get_right n \<noteq> Null"
      "get_triangles (get_left n) = fst (subsets h t0 ts')"
      "get_triangles (get_right n) = snd (subsets h t0 ts')"
    by (rule construct_root_children)
  from subsets_filter [of h t0 ts'] obtain ax s where
    f: "subsets h t0 ts' = (filter (\<lambda>p. classify ax s (h p) = ToLeft) ts',
                            filter (\<lambda>p. classify ax s (h p) \<noteq> ToLeft) ts')"
    by blast
  have len: "length (fst (subsets h t0 ts')) + length (snd (subsets h t0 ts')) = length ts'"
    using subsets_length [of h t0 ts'] by (cases "subsets h t0 ts'") simp
  from ch f len construct_triangles [OF c] show ?thesis by auto
qed

theorem construct_partition_witness:
  "construct 1 two_triangles [10, 20] 1 1 = Some split_tree \<and>
   split_tree \<in> set (nodes split_tree) \<and> \<not> is_leaf split_tree \<and>
   set (get_triangles (get_left split_tree)) \<union> set (get_triangles (get_right split_tree))
     = set (get_triangles split_tree) \<and>
   set (get_triangles (get_left split_tree)) \<inter> set (get_triangles (get_right split_tree)) = {}"
  using construct_partition [of 1 two_triangles "[10, 20]" 1 1 split_tree split_tree]
  by (simp add: two_triangles_construct is_leaf_def split_tree_def left_leaf_def right_leaf_def)

text \<open>
  C4. In a tree that \<open>construct\<close> returns, the box of every node is the one computed
  from the node's own triangle list, and every vertex of every triangle of the node lies
  between its corners on the x, the y and the z axis.
\<close>

theorem construct_containment:
  assumes "construct fresh_depth h triangles max_depth m = Some t"
    and "n \<in> set (nodes t)"
  shows "get_triangles n \<noteq> [] \<and>
         (get_min n, get_max n) = bounds h (hd (get_triangles n)) (get_triangles n) \<and>
         (\<forall>p \<in> set (get_triangles n). \<forall>v \<in> set (getVertices (h p)).
            vx (get_min n) \<le> vx v \<and> vx v \<le> vx (get_max n) \<and>
            vy (get_min n) \<le> vy v \<and> vy v \<le> vy (get_max n) \<and>
            vz (get_min n) \<le> vz v \<and> vz v \<le> vz (get_max n))"
proof -
  from construct_nodes [OF assms] obtain ts' md' where
    c: "construct fresh_depth h ts' md' m = Some n" by blast
  have ts: "get_triangles n = ts'" by (rule construct_triangles [OF c])
  have ne: "ts' \<noteq> []" using c by (cases ts') simp_all
  have box: "(get_min n, get_max n) = bounds h (hd ts') ts'" by (rule construct_box [OF c])
  have "inside v (get_min n, get_max n)"
    if "p \<in> set ts'" "v \<in> set (getVertices (h p))" for p v
    using inside_bounds [of p ts' v h "hd ts'"] that box by simp
  then have "\<forall>p \<in> set ts'. \<forall>v \<in> set (getVertices (h p)).
            vx (get_min n) \<le> vx v \<and> vx v \<le> vx (get_max n) \<and>
            vy (get_min n) \<le> vy v \<and> vy v \<le> vy (get_max n) \<and>
            vz (get_min n) \<le> vz v \<and> vz v \<le> vz (get_max n)"
    by (simp add: inside_def)
  with ts ne box show ?thesis by simp
qed

theorem construct_containment_witness:
  "construct 1 two_triangles [10, 20] 1 1 = Some split_tree \<and>
   right_leaf \<in> set (nodes split_tree) \<and> 20 \<in> set (get_triangles right_leaf) \<and>
   point 11 0 0 \<in> set (getVertices (two_triangles 20)) \<and>
   vx (get_min right_leaf) \<le> vx (point 11 0 0) \<and> vx (point 11 0 0) \<le> vx (get_max right_leaf)"
proof -
  have c: "construct 1 two_triangles [10, 20] 1 1 = Some split_tree"
    by (rule two_triangles_construct)
  have n: "right_leaf \<in> set (nodes split_tree)"
    by (simp add: split_tree_def left_leaf_def right_leaf_def)
  have v: "20 \<in> set (get_triangles right_leaf)"
    "point 11 0 0 \<in> set (getVertices (two_triangles 20))"
    by (simp_all add: right_leaf_def two_triangles_def triangle_at_def getVertices_def)
  from construct_containment [OF c n] c n v show ?thesis by blast
qed

text \<open>
  C10. In a tree that \<open>construct\<close> returns, every node has both children or none, so
  the test of the left child alone, as \<open>test_collision\<close> makes it, decides whether the
  node is a leaf.
\<close>

theorem construct_children_both_or_neither:
  assumes "construct fresh_depth h triangles max_depth m = Some t"
    and "n \<in> set (nodes t)"
  shows "(get_left n = Null \<longleftrightarrow> get_right n = Null) \<and> (get_left n = Null \<longleftrightarrow> is_leaf n)"
proof -
  from construct_nodes [OF assms] obtain ts' md' where
    c: "construct fresh_depth h ts' md' m = Some n" by blast
  show ?thesis
  proof (cases "is_leaf n")
    case True
    then show ?thesis by (simp add: is_leaf_def)
  next
    case False
    with c have "get_left n \<noteq> Null" "get_right n \<noteq> Null"
      by (erule_tac construct_root_children; simp)+
    with False show ?thesis by simp
  qed
qed

theorem construct_children_both_or_neither_witness:
  "construct 1 two_triangles [10, 20] 1 1 = Some split_tree \<and>
   left_leaf \<in> set (nodes split_tree) \<and> split_tree \<in> set (nodes split_tree) \<and>
   (get_left left_leaf = Null \<longleftrightarrow> get_right left_leaf = Null) \<and>
   (get_left split_tree = Null \<longleftrightarrow> get_right split_tree = Null) \<and>
   (get_left split_tree = Null \<longleftrightarrow> is_leaf split_tree)"
  using construct_children_both_or_neither [of 1 two_triangles "[10, 20]" 1 1 split_tree left_leaf]
    construct_children_both_or_neither [of 1 two_triangles "[10, 20]" 1 1 split_tree split_tree]
  by (simp add: two_triangles_construct split_tree_def left_leaf_def right_leaf_def is_leaf_def)



text \<open>
  C8. At every node of a tree that \<open>construct\<close> returns, the split axis of the node's box
  is x when the x edge is at least as long as the other two, y when the y edge is longer than
  the x edge and at least as long as the z edge, and z when the z edge is longer than both; so
  three equal edges, as in a box whose corners coincide, give x. The edge of the chosen axis
  is a longest one, and the split coordinate is the sum of the two corners' coordinates on
  that axis divided by two. Edge lengths, sum and quotient are those of the coordinate type.
  The candidate subsets of the node, and the lists of its children if it has any, are the
  split of its list at this axis and coordinate.
\<close>

theorem construct_split_plane:
  assumes "construct fresh_depth h triangles max_depth m = Some t"
    and "n \<in> set (nodes t)"
  shows "(let xLength = \<bar>vx (get_max n) - vx (get_min n)\<bar>;
              yLength = \<bar>vy (get_max n) - vy (get_min n)\<bar>;
              zLength = \<bar>vz (get_max n) - vz (get_min n)\<bar>;
              ax = fst (choose_split (get_min n) (get_max n));
              splitCoord = snd (choose_split (get_min n) (get_max n))
          in (ax = AxisX \<longleftrightarrow> xLength \<ge> yLength \<and> xLength \<ge> zLength) \<and>
             (ax = AxisY \<longleftrightarrow> yLength > xLength \<and> yLength \<ge> zLength) \<and>
             (ax = AxisZ \<longleftrightarrow> zLength > xLength \<and> zLength > yLength) \<and>
             (xLength = yLength \<and> yLength = zLength \<longrightarrow> ax = AxisX) \<and>
             \<bar>coord ax (get_max n) - coord ax (get_min n)\<bar> = Max {xLength, yLength, zLength} \<and>
             splitCoord = (coord ax (get_min n) + coord ax (get_max n)) / two \<and>
             subsets h (hd (get_triangles n)) (get_triangles n)
               = split_triangles h ax splitCoord (get_triangles n) ([], []) \<and>
             (\<not> is_leaf n \<longrightarrow>
                (get_triangles (get_left n), get_triangles (get_right n))
                  = split_triangles h ax splitCoord (get_triangles n) ([], [])))"
proof -
  define ax where "ax = fst (choose_split (get_min n) (get_max n))"
  define xLength yLength zLength where len:
    "xLength = \<bar>vx (get_max n) - vx (get_min n)\<bar>"
    "yLength = \<bar>vy (get_max n) - vy (get_min n)\<bar>"
    "zLength = \<bar>vz (get_max n) - vz (get_min n)\<bar>"
  note A = choose_split_axis [of "get_min n" "get_max n", folded ax_def len]
  have tie: "xLength = yLength \<and> yLength = zLength \<longrightarrow> ax = AxisX"
    using A(1) by simp
  have longest: "\<bar>coord ax (get_max n) - coord ax (get_min n)\<bar> = Max {xLength, yLength, zLength}"
  proof (cases ax)
    case AxisX
    with A(1) show ?thesis by (simp add: len max_absorb1)
  next
    case AxisY
    with A(2) show ?thesis by (simp add: len max_absorb1 max_absorb2 less_imp_le)
  next
    case AxisZ
    with A(3) show ?thesis by (simp add: len max_absorb1 max_absorb2 less_imp_le)
  qed
  from construct_nodes [OF assms] obtain ts' md' where
    c: "construct fresh_depth h ts' md' m = Some n" by blast
  have box: "bounds h (hd (get_triangles n)) (get_triangles n) = (get_min n, get_max n)"
    using construct_box [OF c] construct_triangles [OF c] by simp
  have sub: "subsets h (hd (get_triangles n)) (get_triangles n)
      = split_triangles h ax (snd (choose_split (get_min n) (get_max n))) (get_triangles n) ([], [])"
    by (simp add: subsets_def box ax_def split: prod.splits)
  have ch: "\<not> is_leaf n \<longrightarrow>
      (get_triangles (get_left n), get_triangles (get_right n))
        = split_triangles h ax (snd (choose_split (get_min n) (get_max n))) (get_triangles n) ([], [])"
    using construct_children_split [OF assms] by (simp add: ax_def)
  from A tie longest sub ch show ?thesis
    unfolding Let_def ax_def [symmetric] len [symmetric] by blast
qed

theorem construct_split_plane_witness:
  "construct 1 straddle_triangles [10, 20] 1 1 = Some straddle_tree \<and>
   straddle_tree \<in> set (nodes straddle_tree) \<and>
   choose_split (get_min straddle_tree) (get_max straddle_tree) = (AxisX, (0 + 10) / 2) \<and>
   split_triangles straddle_triangles AxisX 5 [10, 20] ([], []) = ([10], [20]) \<and>
   construct 1 dot_triangles [10] 1 1 = Some dot_node \<and> dot_node \<in> set (nodes dot_node) \<and>
   get_min dot_node = get_max dot_node \<and>
   choose_split (get_min dot_node) (get_max dot_node) = (AxisX, 5)"
proof -
  have c: "construct 1 straddle_triangles [10, 20] 1 1 = Some straddle_tree"
    by (rule straddle_triangles_construct)
  have n: "straddle_tree \<in> set (nodes straddle_tree)" "\<not> is_leaf straddle_tree"
    by (simp_all add: straddle_tree_def is_leaf_def)
  have d: "construct 1 dot_triangles [10] 1 1 = Some dot_node"
    by (rule dot_triangles_construct)
  have dn: "dot_node \<in> set (nodes dot_node)" "get_min dot_node = get_max dot_node"
    by (simp_all add: dot_node_def)
  have "fst (choose_split (get_min straddle_tree) (get_max straddle_tree)) = AxisX"
    "snd (choose_split (get_min straddle_tree) (get_max straddle_tree)) = (0 + 10) / 2"
    "split_triangles straddle_triangles AxisX 5 [10, 20] ([], []) = ([10], [20])"
    using construct_split_plane [OF c n(1)] n(2)
    by (simp_all add: Let_def straddle_tree_def straddle_triangles_split)
  moreover have "fst (choose_split (get_min dot_node) (get_max dot_node)) = AxisX"
    "snd (choose_split (get_min dot_node) (get_max dot_node)) = 5"
    using construct_split_plane [OF d dn(1)]
    by (simp_all add: Let_def dot_node_def dot_triangles_split)
  ultimately show ?thesis using c n d dn by (simp add: prod_eq_iff)
qed

section \<open>Properties of the collision tester\<close>

text \<open>
  C2. When the two transformed boxes of the roots are apart on some axis,
  \<open>test_collision\<close> returns at once: both trees and the triangle store come back as they
  were, so no collision flag of a node or of a triangle has been set.
\<close>

theorem test_collision_prune:
  "a \<noteq> Null \<Longrightarrow> b \<noteq> Null \<Longrightarrow> separated a M b N
     \<Longrightarrow> test_collision tti a M b N h = Some (a, b, h)"
  by (cases a; cases b) (simp_all add: test_collision_separated)

theorem test_collision_prune_witness:
  "left_leaf \<noteq> Null \<and> right_leaf \<noteq> Null \<and> separated left_leaf identity right_leaf identity \<and>
   test_collision (\<lambda>t M u N. True) left_leaf identity right_leaf identity two_triangles =
     Some (left_leaf, right_leaf, two_triangles)"
  using test_collision_prune [of left_leaf right_leaf identity identity "\<lambda>t M u N. True" two_triangles]
  by (simp add: left_leaf_def right_leaf_def example_boxes)

text \<open>
  C5. When the two transformed boxes are not apart, the call sets the collision flag of both
  nodes, whatever happens below them: on trees with paired children the call returns, and in
  every result both flags are set. If the intersection test answers no for every pair of
  triangles, the flags of the two nodes are set all the same while the triangle store is
  unchanged.
\<close>

theorem test_collision_marks_nodes:
  assumes "a \<noteq> Null" and "b \<noteq> Null" and "\<not> separated a M b N"
  shows "(paired a \<and> paired b \<longrightarrow> test_collision tti a M b N h \<noteq> None) \<and>
         (\<forall>a' b' h'. test_collision tti a M b N h = Some (a', b', h') \<longrightarrow>
            node_collision a' \<and> node_collision b' \<and> ((\<forall>t u. \<not> tti t M u N) \<longrightarrow> h' = h))"
proof (intro conjI impI allI)
  assume "paired a \<and> paired b"
  with assms(1,2) test_collision_total [of a b tti M N h]
  show "test_collision tti a M b N h \<noteq> None" by auto
next
  fix a' b' h'
  assume r: "test_collision tti a M b N h = Some (a', b', h')"
  from test_collision_root_flags [OF r assms(3)]
  show "node_collision a'" "node_collision b'" by simp_all
  assume "\<forall>t u. \<not> tti t M u N"
  with r show "h' = h" by (rule test_collision_no_hit)
qed

theorem test_collision_marks_nodes_witness:
  "split_tree \<noteq> Null \<and> \<not> separated split_tree identity split_tree identity \<and> paired split_tree \<and>
   test_collision (\<lambda>t M u N. False) split_tree identity split_tree identity two_triangles =
     Some (marked_tree, marked_tree, two_triangles) \<and>
   node_collision marked_tree \<and> (\<forall>p. \<not> collision (two_triangles p))"
proof -
  have 1: "split_tree \<noteq> Null" "\<not> separated split_tree identity split_tree identity"
    "paired split_tree"
    by (simp_all add: split_tree_def left_leaf_def right_leaf_def example_boxes)
  from test_collision_marks_nodes [OF 1(1) 1(1) 1(2), of "\<lambda>t M u N. False" two_triangles]
    example_no_hit
  have "node_collision marked_tree" by simp
  moreover have "\<forall>p. \<not> collision (two_triangles p)"
    by (simp add: two_triangles_def triangle_at_def)
  ultimately show ?thesis using 1 example_no_hit by simp
qed

text \<open>
  C6. For two nodes without a left child whose transformed boxes are not apart, with an
  intersection test that does not read the collision flags: the call sets the flag of both
  nodes, and afterwards the flag of a triangle is set exactly when it was set before or the
  triangle belongs to a pair of the cross product of the two lists for which the test answers
  yes. Every such pair counts, not only the first one found.
\<close>

theorem test_collision_leaf_pairs:
  assumes "flag_blind tti"
    and "\<not> separated (BVHNode mn1 mx1 ts1 Null r1 c1) M (BVHNode mn2 mx2 ts2 Null r2 c2) N"
  shows "test_collision tti (BVHNode mn1 mx1 ts1 Null r1 c1) M (BVHNode mn2 mx2 ts2 Null r2 c2) N h =
     Some (BVHNode mn1 mx1 ts1 Null r1 True, BVHNode mn2 mx2 ts2 Null r2 True,
           \<lambda>p. if (p \<in> set ts1 \<and> (\<exists>q \<in> set ts2. tti (h p) M (h q) N)) \<or>
                   (p \<in> set ts2 \<and> (\<exists>q \<in> set ts1. tti (h q) M (h p) N))
                then (h p)\<lparr>collision := True\<rparr> else h p)"
proof -
  have "check_triangles tti ts1 M ts2 N h =
      (\<lambda>p. if (p \<in> set ts1 \<and> (\<exists>q \<in> set ts2. tti (h p) M (h q) N)) \<or>
                   (p \<in> set ts2 \<and> (\<exists>q \<in> set ts1. tti (h q) M (h p) N))
                then (h p)\<lparr>collision := True\<rparr> else h p)"
    unfolding check_triangles_hits [OF assms(1)]
    by (rule ext) (auto simp: raise_flags_def hits_def)
  with assms(2) show ?thesis by (simp add: test_collision_leaves)
qed

theorem test_collision_leaf_pairs_witness:
  "construct 1 row_of_triangles [10, 20] 0 1 = Some first_pair_leaf \<and>
   construct 1 row_of_triangles [30, 40] 0 1 = Some second_pair_leaf \<and>
   flag_blind last_pair_only \<and> flag_blind first_and_last_pair \<and>
   \<not> separated first_pair_leaf identity second_pair_leaf (translate_x (- 20)) \<and>
   map_option (\<lambda>(a', b', h'). (node_collision a', node_collision b', map (\<lambda>p. collision (h' p)) [10, 20, 30, 40]))
     (test_collision last_pair_only first_pair_leaf identity second_pair_leaf (translate_x (- 20))
        row_of_triangles)
   = Some (True, True, [False, True, False, True]) \<and>
   map_option (\<lambda>(a', b', h'). (node_collision a', node_collision b', map (\<lambda>p. collision (h' p)) [10, 20, 30, 40]))
     (test_collision first_and_last_pair first_pair_leaf identity second_pair_leaf (translate_x (- 20))
        row_of_triangles)
   = Some (True, True, [True, True, True, True])"
proof -
  note E1 = test_collision_leaf_pairs [OF example_flag_blind(1) pair_leaves_overlap,
      of "[10, 20]" Null False "[30, 40]" Null False row_of_triangles,
      folded first_pair_leaf_def second_pair_leaf_def]
  note E2 = test_collision_leaf_pairs [OF example_flag_blind(2) pair_leaves_overlap,
      of "[10, 20]" Null False "[30, 40]" Null False row_of_triangles,
      folded first_pair_leaf_def second_pair_leaf_def]
  have o: "\<not> separated first_pair_leaf identity second_pair_leaf (translate_x (- 20))"
    unfolding first_pair_leaf_def second_pair_leaf_def by (rule pair_leaves_overlap)
  have "map_option (\<lambda>(a', b', h'). (node_collision a', node_collision b', map (\<lambda>p. collision (h' p)) [10, 20, 30, 40]))
     (test_collision last_pair_only first_pair_leaf identity second_pair_leaf (translate_x (- 20))
        row_of_triangles)
   = Some (True, True, [False, True, False, True])"
    "map_option (\<lambda>(a', b', h'). (node_collision a', node_collision b', map (\<lambda>p. collision (h' p)) [10, 20, 30, 40]))
     (test_collision first_and_last_pair first_pair_leaf identity second_pair_leaf (translate_x (- 20))
        row_of_triangles)
   = Some (True, True, [True, True, True, True])"
    unfolding E1 E2
    by (simp_all add: last_pair_only_def first_and_last_pair_def row_of_triangles_def
          triangle_at_def point_def)
  with o example_flag_blind row_of_triangles_construct show ?thesis by simp
qed

text \<open>
  C9. With an intersection test that does not read the collision flags, a call that returns
  leaves the shape, the boxes, the triangle lists and the vertices as they were and clears no
  flag, and a second call on its result, with the same matrices, returns that result
  unchanged.
\<close>

theorem test_collision_idempotent:
  assumes "flag_blind tti" and "test_collision tti a M b N h = Some (a', b', h')"
  shows "flags_le a a' \<and> flags_le b b' \<and> heap_le h h' \<and>
         test_collision tti a' M b' N h' = Some (a', b', h')"
  using test_collision_flags_le [OF assms(2)]
    test_collision_absorb [OF assms, of a' b' h'] by simp

theorem test_collision_idempotent_witness:
  "flag_blind (\<lambda>t M u N. True) \<and>
   test_collision (\<lambda>t M u N. True) left_leaf identity left_leaf identity two_triangles =
     Some (set_collision True left_leaf, set_collision True left_leaf, raise_flags {10} two_triangles) \<and>
   test_collision (\<lambda>t M u N. True) (set_collision True left_leaf) identity
       (set_collision True left_leaf) identity (raise_flags {10} two_triangles) =
     Some (set_collision True left_leaf, set_collision True left_leaf, raise_flags {10} two_triangles)"
proof -
  have fb: "flag_blind (\<lambda>t M u N. True)" by (rule flag_blind_const)
  have e: "test_collision (\<lambda>t M u N. True) left_leaf identity left_leaf identity two_triangles =
     Some (set_collision True left_leaf, set_collision True left_leaf, raise_flags {10} two_triangles)"
    by (simp add: left_leaf_def test_collision_leaves example_boxes check_triangles_hits [OF fb]
          hits_def)
  from test_collision_idempotent [OF fb e] fb e show ?thesis by simp
qed

end
